theory Spec2Isabelle
  imports Complex_Main "HOL-Library.AList"
begin

section \<open>Data model\<close>

text \<open>
  The layout engine of \<^verbatim>\<open>client/src/lib/layout.ts\<close> and the incremental placement
  helper of \<^verbatim>\<open>client/src/pages/MindMapPage.tsx\<close>.

  JavaScript numbers are modelled as real numbers: no rounding, no NaN and no infinity
  (where the source starts a minimum at \<^verbatim>\<open>Infinity\<close> the model uses \<open>None\<close>).
  A point \<^verbatim>\<open>{x, y}\<close> is a pair, a size \<^verbatim>\<open>{width, height}\<close> is a pair, and a handle
  assignment \<^verbatim>\<open>{target, source}\<close> is a pair in that order.
\<close>

datatype Position = Left | Right | Top | Bottom

datatype LayoutDirection = TB | LR | Radial

record Measured =
  m_width :: "real option"
  m_height :: "real option"

record NodeData =
  label :: string
  d_width :: "real option"
  d_height :: "real option"
  level :: "real option"

record Node =
  node_id :: string
  node_type :: string
  data :: NodeData
  selected :: bool
  measured :: "Measured option"
  position :: "real \<times> real"
  sourcePosition :: "Position option"
  targetPosition :: "Position option"

record Edge =
  edge_id :: string
  source :: string
  target :: string
  sourceHandle :: "string option"
  targetHandle :: "string option"

definition nodeWidth :: real where
  "nodeWidth = 250"

definition nodeHeight :: real where
  "nodeHeight = 80"

text \<open>The operator \<^verbatim>\<open>a ?? b\<close>: \<open>b\<close> only when \<open>a\<close> is null or undefined.\<close>

fun nullish :: "'a option \<Rightarrow> 'a \<Rightarrow> 'a" where
  "nullish (Some v) _ = v"
| "nullish None d = d"

fun nullish_opt :: "'a option \<Rightarrow> 'a option \<Rightarrow> 'a option" where
  "nullish_opt (Some v) _ = Some v"
| "nullish_opt None d = d"

text \<open>\<^verbatim>\<open>node.measured?.width\<close> and \<^verbatim>\<open>node.measured?.height\<close>.\<close>

definition measured_width :: "Node \<Rightarrow> real option" where
  "measured_width n = (case measured n of None \<Rightarrow> None | Some m \<Rightarrow> m_width m)"

definition measured_height :: "Node \<Rightarrow> real option" where
  "measured_height n = (case measured n of None \<Rightarrow> None | Some m \<Rightarrow> m_height m)"

section \<open>Graph model utilities\<close>

definition findRootNodes :: "Node list \<Rightarrow> Edge list \<Rightarrow> Node list" where
  "findRootNodes nodes edges =
     (let targetIds = set (map target edges);
          roots = filter (\<lambda>n. node_id n \<notin> targetIds) nodes
      in if length roots > 0 then roots
         else (if length nodes > 0 then [hd nodes] else []))"

text \<open>
  \<^verbatim>\<open>buildTree\<close>: every node starts with no children; an edge appends its target to the
  children of its source when the source is a node, and always records the source as the
  parent of the target (the last edge wins).
\<close>

definition buildTree_edge ::
  "Edge \<Rightarrow> (string \<rightharpoonup> string list) \<times> (string \<rightharpoonup> string) \<Rightarrow>
   (string \<rightharpoonup> string list) \<times> (string \<rightharpoonup> string)" where
  "buildTree_edge e cp =
     (let children = fst cp; parent = snd cp
      in ((case children (source e) of
             Some parentChildren \<Rightarrow> children(source e \<mapsto> parentChildren @ [target e])
           | None \<Rightarrow> children),
          parent(target e \<mapsto> source e)))"

definition buildTree ::
  "Node list \<Rightarrow> Edge list \<Rightarrow> (string \<rightharpoonup> string list) \<times> (string \<rightharpoonup> string)" where
  "buildTree nodes edges =
     fold buildTree_edge edges
       (fold (\<lambda>n children. children(node_id n \<mapsto> [])) nodes Map.empty, Map.empty)"

text \<open>\<^verbatim>\<open>children.get(id) || []\<close>.\<close>

definition kidsOf :: "(string \<rightharpoonup> string list) \<Rightarrow> string \<Rightarrow> string list" where
  "kidsOf children nodeId = (case children nodeId of Some ks \<Rightarrow> ks | None \<Rightarrow> [])"

section \<open>Node sizing accessors\<close>

text \<open>
  The accessor of \<^verbatim>\<open>radialLayout\<close>: \<^verbatim>\<open>nodes.find\<close> takes the first node with the id,
  and only the measured size is consulted.
\<close>

definition getNodeSize_radial :: "Node list \<Rightarrow> string \<Rightarrow> real \<times> real" where
  "getNodeSize_radial nodes nodeId =
     (case find (\<lambda>n. node_id n = nodeId) nodes of
        None \<Rightarrow> (nodeWidth, nodeHeight)
      | Some node \<Rightarrow> (nullish (measured_width node) nodeWidth,
                      nullish (measured_height node) nodeHeight))"

text \<open>
  The accessor of \<^verbatim>\<open>horizontalLayout\<close> reads \<^verbatim>\<open>nodeMap\<close>, a \<^verbatim>\<open>Map\<close> built from the
  node list, where a later node with the same id replaces an earlier one.
\<close>

definition nodeMap :: "Node list \<Rightarrow> string \<rightharpoonup> Node" where
  "nodeMap nodes = fold (\<lambda>n m. m(node_id n \<mapsto> n)) nodes Map.empty"

definition getNodeSize :: "Node list \<Rightarrow> string \<Rightarrow> real \<times> real" where
  "getNodeSize nodes nodeId =
     (case nodeMap nodes nodeId of
        None \<Rightarrow> (nodeWidth, nodeHeight)
      | Some node \<Rightarrow>
          (nullish (nullish_opt (measured_width node) (d_width (data node))) nodeWidth,
           nullish (nullish_opt (measured_height node) (d_height (data node))) nodeHeight))"


section \<open>Incremental non-overlapping placement\<close>

text \<open>
  \<^verbatim>\<open>findNonOverlappingPosition\<close> of \<^verbatim>\<open>MindMapPage.tsx\<close>. Its parameters
  \<^verbatim>\<open>nodeWidth\<close> and \<^verbatim>\<open>nodeHeight\<close> shadow the module constants: they are the size of
  the box to place, and also the fallback size of an existing node that has neither a
  measured nor a stored size.
\<close>

datatype Side = SideLeft | SideRight

definition padding :: real where
  "padding = 20"

definition existingWidth :: "real \<Rightarrow> Node \<Rightarrow> real" where
  "existingWidth nodeWidth' existingNode =
     nullish (nullish_opt (measured_width existingNode) (d_width (data existingNode))) nodeWidth'"

definition existingHeight :: "real \<Rightarrow> Node \<Rightarrow> real" where
  "existingHeight nodeHeight' existingNode =
     nullish (nullish_opt (measured_height existingNode) (d_height (data existingNode))) nodeHeight'"

text \<open>The overlap test of both loops, for the box at \<open>(testX, testY)\<close>.\<close>

definition overlapsExisting :: "real \<Rightarrow> real \<Rightarrow> real \<Rightarrow> real \<Rightarrow> Node \<Rightarrow> bool" where
  "overlapsExisting testX testY nodeWidth' nodeHeight' existingNode =
     (let existingLeft = fst (position existingNode);
          existingRight = fst (position existingNode) + existingWidth nodeWidth' existingNode;
          existingTop = snd (position existingNode);
          existingBottom = snd (position existingNode) + existingHeight nodeHeight' existingNode;
          testLeft = testX;
          testRight = testX + nodeWidth';
          testTop = testY;
          testBottom = testY + nodeHeight'
      in \<not> (testRight + padding < existingLeft \<or> testLeft - padding > existingRight \<or>
             testBottom + padding < existingTop \<or> testTop - padding > existingBottom))"

definition centerDistance :: "real \<Rightarrow> real \<Rightarrow> real \<Rightarrow> real \<Rightarrow> Node \<Rightarrow> real" where
  "centerDistance testX testY nodeWidth' nodeHeight' existingNode =
     (let existingLeft = fst (position existingNode);
          existingRight = fst (position existingNode) + existingWidth nodeWidth' existingNode;
          existingTop = snd (position existingNode);
          existingBottom = snd (position existingNode) + existingHeight nodeHeight' existingNode;
          centerX = (testX + (testX + nodeWidth')) / 2;
          centerY = (testY + (testY + nodeHeight')) / 2;
          existingCenterX = (existingLeft + existingRight) / 2;
          existingCenterY = (existingTop + existingBottom) / 2
      in sqrt ((centerX - existingCenterX)\<^sup>2 + (centerY - existingCenterY)\<^sup>2))"

text \<open>
  The inner loop of the vertical scan: it stops at the first overlapping node, and
  otherwise adds up the distances. The result is \<open>(hasOverlap, totalDistance)\<close>.
\<close>

fun scanExisting :: "real \<Rightarrow> real \<Rightarrow> real \<Rightarrow> real \<Rightarrow> Node list \<Rightarrow> real \<Rightarrow> bool \<times> real" where
  "scanExisting testX testY w h [] totalDistance = (False, totalDistance)"
| "scanExisting testX testY w h (existingNode # rest) totalDistance =
     (if overlapsExisting testX testY w h existingNode then (True, totalDistance)
      else scanExisting testX testY w h rest
             (totalDistance + centerDistance testX testY w h existingNode))"

text \<open>\<^verbatim>\<open>totalDistance < minDistance\<close>, where \<open>None\<close> is \<^verbatim>\<open>Infinity\<close>.\<close>

fun belowMin :: "real \<Rightarrow> real option \<Rightarrow> bool" where
  "belowMin d None = True"
| "belowMin d (Some m) = (d < m)"

text \<open>One round of the vertical scan; the state is \<open>(bestX, bestY, minDistance)\<close>.\<close>

definition tryOffset ::
  "real \<Rightarrow> real \<Rightarrow> real \<Rightarrow> real \<Rightarrow> Node list \<Rightarrow> int \<Rightarrow>
   real \<times> real \<times> real option \<Rightarrow> real \<times> real \<times> real option" where
  "tryOffset initialX initialY w h existingNodes yOffset best =
     (let testY = initialY + of_int yOffset;
          testX = initialX;
          scan = scanExisting testX testY w h existingNodes 0
      in if \<not> fst scan \<and> belowMin (snd scan) (snd (snd best))
         then (testX, testY, Some (snd scan)) else best)"

function scanVertical ::
  "real \<Rightarrow> real \<Rightarrow> real \<Rightarrow> real \<Rightarrow> Node list \<Rightarrow> int \<Rightarrow>
   real \<times> real \<times> real option \<Rightarrow> real \<times> real \<times> real option" where
  "scanVertical initialX initialY w h existingNodes yOffset best =
     (if yOffset \<le> 200
      then scanVertical initialX initialY w h existingNodes (yOffset + 50)
             (tryOffset initialX initialY w h existingNodes yOffset best)
      else best)"
  by pat_completeness auto
termination
  by (relation "measure (\<lambda>(initialX, initialY, w, h, existingNodes, yOffset, best).
                   nat (250 - yOffset))") auto

declare scanVertical.simps [simp del]

text \<open>The horizontal fallback scan, which stops at the first offset free of overlap.\<close>

function scanHorizontal ::
  "real \<Rightarrow> real \<Rightarrow> real \<Rightarrow> real \<Rightarrow> Node list \<Rightarrow> Side \<Rightarrow> int \<Rightarrow> real \<Rightarrow> real" where
  "scanHorizontal initialX bestY w h existingNodes direction xAdjust bestX =
     (if xAdjust < 500
      then (let testX = initialX + (if direction = SideRight then of_int xAdjust
                                     else - of_int xAdjust)
            in if \<not> list_ex (overlapsExisting testX bestY w h) existingNodes then testX
               else scanHorizontal initialX bestY w h existingNodes direction
                      (xAdjust + 50) bestX)
      else bestX)"
  by pat_completeness auto
termination
  by (relation "measure (\<lambda>(initialX, bestY, w, h, existingNodes, direction, xAdjust, bestX).
                   nat (500 - xAdjust))") auto

declare scanHorizontal.simps [simp del]

definition findNonOverlappingPosition ::
  "real \<Rightarrow> real \<Rightarrow> real \<Rightarrow> real \<Rightarrow> Node list \<Rightarrow> Side \<Rightarrow> real \<times> real" where
  "findNonOverlappingPosition initialX initialY w h existingNodes direction =
     (let best = scanVertical initialX initialY w h existingNodes (- 200)
                   (initialX, initialY, None);
          bestX = fst best; bestY = fst (snd best); minDistance = snd (snd best)
      in if minDistance = None
         then (scanHorizontal initialX bestY w h existingNodes direction 0 bestX, bestY)
         else (bestX, bestY))"

text \<open>
  The nine vertical offsets of the scan, and what the scan computes for a candidate: whether
  its test finds no existing node in overlap, and the sum of the distances it adds up.
\<close>

definition yOffsets :: "int list" where
  "yOffsets = [- 200, - 150, - 100, - 50, 0, 50, 100, 150, 200]"

definition clearOf :: "real \<Rightarrow> real \<Rightarrow> real \<Rightarrow> real \<Rightarrow> Node list \<Rightarrow> bool" where
  "clearOf testX testY w h existingNodes =
     (\<forall>n \<in> set existingNodes. \<not> overlapsExisting testX testY w h n)"

definition summedDistance :: "real \<Rightarrow> real \<Rightarrow> real \<Rightarrow> real \<Rightarrow> Node list \<Rightarrow> real" where
  "summedDistance testX testY w h existingNodes =
     sum_list (map (centerDistance testX testY w h) existingNodes)"

section \<open>Horizontal tree layout\<close>

text \<open>
  A JavaScript \<^verbatim>\<open>Map\<close> whose iteration order is used is an association list in
  insertion order: \<open>map_of\<close> is \<^verbatim>\<open>get\<close> and \<open>AList.update\<close> is \<^verbatim>\<open>set\<close> (a new key goes
  to the end, an existing key keeps its place). The positions are such a map; the handle
  positions are only read by key.

  The recursive functions of the source carry no guard against revisiting a node, so they
  take a bound \<open>fuel\<close> on the depth of nested calls, and \<open>None\<close> is a call that does not
  return a value: the depth is exhausted (in JavaScript the engine throws a
  \<^verbatim>\<open>RangeError\<close> when the call stack is exhausted) or a value asserted to be present
  is missing.
\<close>

type_synonym posmap = "(string \<times> (real \<times> real)) list"

type_synonym handlemap = "string \<rightharpoonup> (Position \<times> Position)"

fun foldM :: "('a \<Rightarrow> 's \<Rightarrow> 's option) \<Rightarrow> 'a list \<Rightarrow> 's \<Rightarrow> 's option" where
  "foldM f [] s = Some s"
| "foldM f (x # xs) s = (case f x s of None \<Rightarrow> None | Some s' \<Rightarrow> foldM f xs s')"

definition rootX :: real where "rootX = 800"
definition rootY :: real where "rootY = 500"
definition horizontalSpacing :: real where "horizontalSpacing = 350"
definition baseVerticalSpacing :: real where "baseVerticalSpacing = 30"
definition minPadding :: real where "minPadding = 25"
definition maxIterations :: nat where "maxIterations = 50"
definition parentChildPaddingX :: real where "parentChildPaddingX = 40"
definition parentChildStepX :: real where "parentChildStepX = 40"
definition maxParentChildIterations :: nat where "maxParentChildIterations = 20"

text \<open>\<^verbatim>\<open>nodesOverlap\<close>, on top-left corners and sizes.\<close>

definition nodesOverlap ::
  "real \<times> real \<Rightarrow> real \<times> real \<Rightarrow> real \<times> real \<Rightarrow> real \<times> real \<Rightarrow> real \<Rightarrow> bool" where
  "nodesOverlap pos1 size1 pos2 size2 pad =
     (\<not> (fst pos1 + fst size1 + pad \<le> fst pos2 \<or>
          fst pos2 + fst size2 + pad \<le> fst pos1 \<or>
          snd pos1 + snd size1 + pad \<le> snd pos2 \<or>
          snd pos2 + snd size2 + pad \<le> snd pos1))"

text \<open>\<^verbatim>\<open>getNodeBounds\<close>: the top-left corner and the size, \<open>((x, y), (width, height))\<close>.\<close>

definition getNodeBounds ::
  "Node list \<Rightarrow> posmap \<Rightarrow> string \<Rightarrow> ((real \<times> real) \<times> (real \<times> real)) option" where
  "getNodeBounds nodes positions nodeId =
     (case map_of positions nodeId of
        None \<Rightarrow> None
      | Some pos \<Rightarrow>
          (let size = getNodeSize nodes nodeId
           in Some ((fst pos - fst size / 2, snd pos - snd size / 2), size)))"

definition checkOverlap :: "Node list \<Rightarrow> posmap \<Rightarrow> string \<Rightarrow> string \<Rightarrow> bool" where
  "checkOverlap nodes positions nodeId1 nodeId2 =
     (case (getNodeBounds nodes positions nodeId1, getNodeBounds nodes positions nodeId2) of
        (Some bounds1, Some bounds2) \<Rightarrow>
          nodesOverlap (fst bounds1) (snd bounds1) (fst bounds2) (snd bounds2) minPadding
      | _ \<Rightarrow> False)"

definition moveNodeWithDirectChildren ::
  "(string \<rightharpoonup> string list) \<Rightarrow> posmap \<Rightarrow> string \<Rightarrow> real \<Rightarrow> posmap" where
  "moveNodeWithDirectChildren children positions nodeId deltaY =
     (case map_of positions nodeId of
        None \<Rightarrow> positions
      | Some currentPos \<Rightarrow>
          fold (\<lambda>kidId ps.
                  case map_of ps kidId of
                    Some kidPos \<Rightarrow> AList.update kidId (fst kidPos, snd kidPos + deltaY) ps
                  | None \<Rightarrow> ps)
               (kidsOf children nodeId)
               (AList.update nodeId (fst currentPos, snd currentPos + deltaY) positions))"

fun calcSubtreeHeight ::
  "nat \<Rightarrow> Node list \<Rightarrow> (string \<rightharpoonup> string list) \<Rightarrow> string \<Rightarrow> real option" where
  "calcSubtreeHeight 0 nodes children nodeId = None"
| "calcSubtreeHeight (Suc fuel) nodes children nodeId =
     (let kids = kidsOf children nodeId;
          nodeSize = getNodeSize nodes nodeId
      in if length kids = 0 then Some (snd nodeSize)
         else (case foldM (\<lambda>(kidId, index) totalHeight.
                             case calcSubtreeHeight fuel nodes children kidId of
                               None \<Rightarrow> None
                             | Some kidHeight \<Rightarrow>
                                 Some (totalHeight + kidHeight
                                       + (if index < length kids - 1 then baseVerticalSpacing
                                          else 0)))
                          (zip kids [0 ..< length kids]) 0 of
                 None \<Rightarrow> None
               | Some totalHeight \<Rightarrow> Some (max (snd nodeSize) totalHeight)))"

text \<open>\<^verbatim>\<open>ids.forEach(id => heights.push(calcSubtreeHeight(id)))\<close>.\<close>

definition subtreeHeights ::
  "nat \<Rightarrow> Node list \<Rightarrow> (string \<rightharpoonup> string list) \<Rightarrow> string list \<Rightarrow> real list option" where
  "subtreeHeights fuel nodes children ids =
     foldM (\<lambda>kidId heights.
              case calcSubtreeHeight fuel nodes children kidId of
                None \<Rightarrow> None
              | Some kidHeight \<Rightarrow> Some (heights @ [kidHeight])) ids []"

definition sideHandles :: "Side \<Rightarrow> Position \<times> Position" where
  "sideHandles direction =
     (if direction = SideLeft then Right else Left,
      if direction = SideLeft then Left else Right)"

fun initialLayout ::
  "nat \<Rightarrow> Node list \<Rightarrow> (string \<rightharpoonup> string list) \<Rightarrow> string \<Rightarrow> real \<Rightarrow> real \<Rightarrow> Side \<Rightarrow>
   posmap \<times> handlemap \<Rightarrow> (real \<times> posmap \<times> handlemap) option" where
  "initialLayout 0 nodes children nodeId x parentY direction st = None"
| "initialLayout (Suc fuel) nodes children nodeId x parentY direction st =
     (let kids = kidsOf children nodeId;
          nodeSize = getNodeSize nodes nodeId;
          st1 = (AList.update nodeId (x, parentY) (fst st),
                 (snd st)(nodeId \<mapsto> sideHandles direction))
      in if length kids = 0 then Some (snd nodeSize, st1)
         else (case subtreeHeights fuel nodes children kids of
                 None \<Rightarrow> None
               | Some childHeights \<Rightarrow>
                   (let totalChildrenHeight =
                          foldl (\<lambda>sum h. sum + h) 0 childHeights
                          + (if length kids > 1
                             then (real (length kids) - 1) * baseVerticalSpacing else 0);
                        nextX = x + (if direction = SideLeft then - horizontalSpacing
                                     else horizontalSpacing)
                    in (case foldM (\<lambda>(kidId, kidHeight) (currentY, st').
                                      case initialLayout fuel nodes children kidId nextX
                                             (currentY + kidHeight / 2) direction st' of
                                        None \<Rightarrow> None
                                      | Some (h, st'') \<Rightarrow>
                                          Some (currentY + kidHeight + baseVerticalSpacing, st''))
                                   (zip kids childHeights)
                                   (parentY - totalChildrenHeight / 2, st1) of
                          None \<Rightarrow> None
                        | Some (currentY, st2) \<Rightarrow>
                            Some (max (snd nodeSize) totalChildrenHeight, st2)))))"


text \<open>
  \<^verbatim>\<open>positions.get(a)!.y\<close>, the sort key of the overlap passes. The ids sorted there are
  keys of the positions.
\<close>

definition yOf :: "posmap \<Rightarrow> string \<Rightarrow> real" where
  "yOf positions a = snd (the (map_of positions a))"

text \<open>\<^verbatim>\<open>if (!m.has(k)) m.set(k, []); m.get(k)!.push(v)\<close> on an insertion-ordered map.\<close>

definition groupInsert :: "'k \<Rightarrow> 'v \<Rightarrow> ('k \<times> 'v list) list \<Rightarrow> ('k \<times> 'v list) list" where
  "groupInsert k v groups =
     (case map_of groups k of
        None \<Rightarrow> groups @ [(k, [v])]
      | Some vs \<Rightarrow> AList.update k (vs @ [v]) groups)"

text \<open>A string is truthy when it is not empty.\<close>

definition siblingsByParent :: "(string \<rightharpoonup> string) \<Rightarrow> posmap \<Rightarrow> (string \<times> string list) list" where
  "siblingsByParent parent positions =
     fold (\<lambda>(nodeId, pos) groups.
             case parent nodeId of
               Some parentId \<Rightarrow> if parentId \<noteq> [] then groupInsert parentId nodeId groups
                                 else groups
             | None \<Rightarrow> groups)
          positions []"

text \<open>
  The amount by which the second node has to go down to clear the first:
  \<^verbatim>\<open>(bounds1.y + bounds1.height + minPadding) - bounds2.y\<close>.
\<close>

definition neededSpace :: "Node list \<Rightarrow> posmap \<Rightarrow> string \<Rightarrow> string \<Rightarrow> real option" where
  "neededSpace nodes positions id1 id2 =
     (case (getNodeBounds nodes positions id1, getNodeBounds nodes positions id2) of
        (Some bounds1, Some bounds2) \<Rightarrow>
          Some ((snd (fst bounds1) + snd (snd bounds1) + minPadding) - snd (fst bounds2))
      | _ \<Rightarrow> None)"

text \<open>
  One round of the loop over consecutive siblings; the state is the sibling array (sorted
  again after a move), \<open>hasOverlap\<close> and the positions.
\<close>

definition siblingStep ::
  "Node list \<Rightarrow> (string \<rightharpoonup> string list) \<Rightarrow> nat \<Rightarrow> string list \<times> bool \<times> posmap \<Rightarrow>
   string list \<times> bool \<times> posmap" where
  "siblingStep nodes children i st =
     (let siblingIds = fst st; hasOverlap = fst (snd st); positions = snd (snd st);
          id1 = siblingIds ! i; id2 = siblingIds ! (i + 1)
      in if checkOverlap nodes positions id1 id2
         then (case neededSpace nodes positions id1 id2 of
                 Some needed \<Rightarrow>
                   if needed > 0
                   then (let positions' =
                               moveNodeWithDirectChildren children positions id2 (needed + 5)
                         in (sort_key (yOf positions') siblingIds, True, positions'))
                   else (siblingIds, True, positions)
               | None \<Rightarrow> (siblingIds, True, positions))
         else (siblingIds, hasOverlap, positions))"

definition resolveSiblings ::
  "Node list \<Rightarrow> (string \<rightharpoonup> string list) \<Rightarrow> string \<times> string list \<Rightarrow> bool \<times> posmap \<Rightarrow>
   bool \<times> posmap" where
  "resolveSiblings nodes children siblings st =
     (if length (snd siblings) < 2 then st
      else (let siblingIds = sort_key (yOf (snd st)) (snd siblings)
            in snd (fold (siblingStep nodes children) [0 ..< length siblingIds - 1]
                      (siblingIds, fst st, snd st))))"

text \<open>\<^verbatim>\<open>Math.round\<close> rounds to the nearest integer, a half upwards.\<close>

definition js_round :: "real \<Rightarrow> real" where
  "js_round v = of_int \<lfloor>v + 1 / 2\<rfloor>"

definition nodesByColumn :: "posmap \<Rightarrow> (real \<times> string list) list" where
  "nodesByColumn positions =
     fold (\<lambda>(nodeId, pos) cols. groupInsert (js_round (fst pos / 10) * 10) nodeId cols)
          positions []"

definition columnStep ::
  "Node list \<Rightarrow> (string \<rightharpoonup> string list) \<Rightarrow> (string \<rightharpoonup> string) \<Rightarrow> string list \<Rightarrow> nat \<Rightarrow>
   bool \<times> posmap \<Rightarrow> bool \<times> posmap" where
  "columnStep nodes children parent nodeIds i st =
     (let hasOverlap = fst st; positions = snd st;
          id1 = nodeIds ! i; id2 = nodeIds ! (i + 1)
      in if parent id2 = Some id1 \<or> parent id1 = Some id2 then st
         else if (case parent id1 of Some p \<Rightarrow> p \<noteq> [] | None \<Rightarrow> False)
                 \<and> parent id1 = parent id2 then st
         else if checkOverlap nodes positions id1 id2
         then (case neededSpace nodes positions id1 id2 of
                 Some needed \<Rightarrow>
                   if needed > 0
                   then (True, moveNodeWithDirectChildren children positions id2 (needed + 5))
                   else (True, positions)
               | None \<Rightarrow> (True, positions))
         else st)"

definition resolveColumn ::
  "Node list \<Rightarrow> (string \<rightharpoonup> string list) \<Rightarrow> (string \<rightharpoonup> string) \<Rightarrow> real \<times> string list \<Rightarrow>
   bool \<times> posmap \<Rightarrow> bool \<times> posmap" where
  "resolveColumn nodes children parent col st =
     (if length (snd col) < 2 then st
      else (let nodeIds = sort_key (yOf (snd st)) (snd col)
            in fold (columnStep nodes children parent nodeIds) [0 ..< length nodeIds - 1] st))"

text \<open>The body of the \<^verbatim>\<open>while\<close> loop of \<^verbatim>\<open>resolveOverlaps\<close>; it starts with
  \<open>hasOverlap = False\<close>.\<close>

definition resolvePass ::
  "Node list \<Rightarrow> (string \<rightharpoonup> string list) \<Rightarrow> (string \<rightharpoonup> string) \<Rightarrow> posmap \<Rightarrow> bool \<times> posmap" where
  "resolvePass nodes children parent positions =
     (let st1 = fold (resolveSiblings nodes children) (siblingsByParent parent positions)
                  (False, positions)
      in fold (resolveColumn nodes children parent) (nodesByColumn (snd st1)) st1)"

function resolveLoop ::
  "Node list \<Rightarrow> (string \<rightharpoonup> string list) \<Rightarrow> (string \<rightharpoonup> string) \<Rightarrow> nat \<Rightarrow> bool \<Rightarrow> posmap \<Rightarrow>
   posmap" where
  "resolveLoop nodes children parent iteration hasOverlap positions =
     (if hasOverlap \<and> iteration < maxIterations
      then (let st = resolvePass nodes children parent positions
            in resolveLoop nodes children parent (iteration + 1) (fst st) (snd st))
      else positions)"
  by pat_completeness auto
termination
  by (relation "measure (\<lambda>(nodes, children, parent, iteration, hasOverlap, positions).
                   maxIterations - iteration)") auto

declare resolveLoop.simps [simp del]

definition resolveOverlaps ::
  "Node list \<Rightarrow> (string \<rightharpoonup> string list) \<Rightarrow> (string \<rightharpoonup> string) \<Rightarrow> posmap \<Rightarrow> posmap" where
  "resolveOverlaps nodes children parent positions =
     resolveLoop nodes children parent 0 True positions"

fun moveSubtreeHorizontally ::
  "nat \<Rightarrow> (string \<rightharpoonup> string list) \<Rightarrow> string \<Rightarrow> real \<Rightarrow> posmap \<Rightarrow> posmap option" where
  "moveSubtreeHorizontally 0 children nodeId deltaX positions = None"
| "moveSubtreeHorizontally (Suc fuel) children nodeId deltaX positions =
     foldM (\<lambda>kidId ps. moveSubtreeHorizontally fuel children kidId deltaX ps)
           (kidsOf children nodeId)
           (case map_of positions nodeId of
              Some pos \<Rightarrow> AList.update nodeId (fst pos + deltaX, snd pos) positions
            | None \<Rightarrow> positions)"

text \<open>The \<^verbatim>\<open>while\<close> loop of the parent/child pass, for one edge.\<close>

function pushChildAway ::
  "nat \<Rightarrow> Node list \<Rightarrow> (string \<rightharpoonup> string list) \<Rightarrow> string \<Rightarrow> string \<Rightarrow> nat \<Rightarrow> posmap \<Rightarrow>
   posmap option" where
  "pushChildAway fuel nodes children parentId childId iter positions =
     (if iter < maxParentChildIterations
      then (case (getNodeBounds nodes positions parentId,
                  getNodeBounds nodes positions childId) of
              (Some parentBounds, Some childBounds) \<Rightarrow>
                if nodesOverlap (fst parentBounds) (snd parentBounds)
                     (fst childBounds) (snd childBounds) parentChildPaddingX
                then (let parentCenterX = fst (fst parentBounds) + fst (snd parentBounds) / 2;
                          childCenterX = fst (fst childBounds) + fst (snd childBounds) / 2;
                          direction = (if childCenterX \<ge> parentCenterX then 1 else - 1)
                      in case moveSubtreeHorizontally fuel children childId
                                (direction * parentChildStepX) positions of
                           None \<Rightarrow> None
                         | Some positions' \<Rightarrow>
                             pushChildAway fuel nodes children parentId childId (iter + 1)
                               positions')
                else Some positions
            | _ \<Rightarrow> Some positions)
      else Some positions)"
  by pat_completeness auto
termination
  by (relation "measure (\<lambda>(fuel, nodes, children, parentId, childId, iter, positions).
                   maxParentChildIterations - iter)") auto

declare pushChildAway.simps [simp del]

text \<open>The side of a child of the root: the stored handle of the first edge from the root
  to it, else its current position relative to the root, else its index.\<close>

definition rootChildSide :: "Node list \<Rightarrow> Edge list \<Rightarrow> Node \<Rightarrow> string \<Rightarrow> nat \<Rightarrow> Side" where
  "rootChildSide nodes edges rootNode childId index =
     (let edge = find (\<lambda>e. source e = node_id rootNode \<and> target e = childId) edges;
          childNode = find (\<lambda>n. node_id n = childId) nodes;
          handle = (case edge of None \<Rightarrow> None | Some e \<Rightarrow> sourceHandle e)
      in if handle = Some ''left'' then SideLeft
         else if handle = Some ''right'' then SideRight
         else (case childNode of
                 Some cn \<Rightarrow>
                   (let childX = fst (position cn) + nullish (measured_width cn) nodeWidth / 2;
                        rootX2 = fst (position rootNode)
                                 + nullish (measured_width rootNode) nodeWidth / 2
                    in if childX < rootX2 then SideLeft else SideRight)
               | None \<Rightarrow> if index mod 2 = 0 then SideRight else SideLeft))"

definition sideChildren ::
  "Node list \<Rightarrow> Edge list \<Rightarrow> Node \<Rightarrow> string list \<Rightarrow> Side \<Rightarrow> string list" where
  "sideChildren nodes edges rootNode rootChildren side =
     map fst (filter (\<lambda>(childId, index). rootChildSide nodes edges rootNode childId index = side)
                (zip rootChildren [0 ..< length rootChildren]))"

text \<open>The layout of the left or of the right children of the root.\<close>

definition layoutSide ::
  "nat \<Rightarrow> Node list \<Rightarrow> (string \<rightharpoonup> string list) \<Rightarrow> Side \<Rightarrow> string list \<Rightarrow>
   posmap \<times> handlemap \<Rightarrow> (posmap \<times> handlemap) option" where
  "layoutSide fuel nodes children direction ids st =
     (if length ids > 0
      then (case subtreeHeights fuel nodes children ids of
              None \<Rightarrow> None
            | Some heights \<Rightarrow>
                (let totalHeight =
                       foldl (\<lambda>sum h. sum + h) 0 heights
                       + (if length ids > 1
                          then (real (length ids) - 1) * baseVerticalSpacing else 0);
                     nextX = (if direction = SideLeft then rootX - horizontalSpacing
                              else rootX + horizontalSpacing)
                 in (case foldM (\<lambda>(childId, kidHeight) (currentY, st').
                                   case initialLayout fuel nodes children childId nextX
                                          (currentY + kidHeight / 2) direction st' of
                                     None \<Rightarrow> None
                                   | Some (h, st'') \<Rightarrow>
                                       Some (currentY + kidHeight + baseVerticalSpacing, st''))
                                (zip ids heights) (rootY - totalHeight / 2, st) of
                       None \<Rightarrow> None
                     | Some (currentY, st2) \<Rightarrow> Some st2)))
      else Some st)"

text \<open>
  The vertical extent of the children of the root; \<open>None\<close> as the pair is
  \<^verbatim>\<open>(Infinity, -Infinity)\<close>.
\<close>

definition extendY ::
  "Node list \<Rightarrow> posmap \<Rightarrow> string \<Rightarrow> (real \<times> real) option \<Rightarrow> (real \<times> real) option option" where
  "extendY nodes positions childId acc =
     (case map_of positions childId of
        None \<Rightarrow> None
      | Some pos \<Rightarrow>
          (let size = getNodeSize nodes childId;
               lo = snd pos - snd size / 2;
               hi = snd pos + snd size / 2
           in Some (Some (case acc of
                            None \<Rightarrow> (lo, hi)
                          | Some (minY, maxY) \<Rightarrow> (min minY lo, max maxY hi)))))"

definition centerRoot ::
  "Node list \<Rightarrow> string \<Rightarrow> string list \<Rightarrow> string list \<Rightarrow> posmap \<Rightarrow> posmap option" where
  "centerRoot nodes rootId leftChildren rightChildren positions =
     (if length leftChildren > 0 \<or> length rightChildren > 0
      then (case foldM (extendY nodes positions) (leftChildren @ rightChildren) None of
              None \<Rightarrow> None
            | Some None \<Rightarrow> Some positions
            | Some (Some (minY, maxY)) \<Rightarrow>
                Some (AList.update rootId (rootX, (minY + maxY) / 2) positions))
      else Some positions)"

definition rootOf :: "Node list \<Rightarrow> Edge list \<Rightarrow> Node" where
  "rootOf nodes edges =
     (let targetIds = set (map target edges);
          rootNodes = filter (\<lambda>n. node_id n \<notin> targetIds) nodes
      in if length rootNodes > 0 then hd rootNodes else hd nodes)"

text \<open>
  The positions and handle positions of the nodes reached from the root, after the
  overlap passes and before the orphans are placed. The node list is not empty here.
\<close>

definition horizontalPlaced ::
  "nat \<Rightarrow> Node list \<Rightarrow> Edge list \<Rightarrow> (posmap \<times> handlemap) option" where
  "horizontalPlaced fuel nodes edges =
     (let rootNode = rootOf nodes edges;
          children = fst (buildTree nodes edges);
          parent = snd (buildTree nodes edges);
          rootChildren = kidsOf children (node_id rootNode);
          leftChildren = sideChildren nodes edges rootNode rootChildren SideLeft;
          rightChildren = sideChildren nodes edges rootNode rootChildren SideRight;
          st0 = ([(node_id rootNode, (rootX, rootY))],
                 [node_id rootNode \<mapsto> (Left, Right)])
      in case layoutSide fuel nodes children SideLeft leftChildren st0 of
           None \<Rightarrow> None
         | Some st1 \<Rightarrow>
        (case layoutSide fuel nodes children SideRight rightChildren st1 of
           None \<Rightarrow> None
         | Some st2 \<Rightarrow>
        (case centerRoot nodes (node_id rootNode) leftChildren rightChildren (fst st2) of
           None \<Rightarrow> None
         | Some positions3 \<Rightarrow>
        (case foldM (\<lambda>edge ps. pushChildAway fuel nodes children (source edge) (target edge)
                                  0 ps)
                edges (resolveOverlaps nodes children parent positions3) of
           None \<Rightarrow> None
         | Some positions4 \<Rightarrow> Some (positions4, snd st2)))))"

definition placeOrphans :: "Node list \<Rightarrow> posmap \<times> handlemap \<Rightarrow> posmap \<times> handlemap" where
  "placeOrphans nodes st =
     fold (\<lambda>node (positions, handlePositions).
             if map_of positions (node_id node) = None
             then (AList.update (node_id node) (rootX + 500, rootY) positions,
                   handlePositions(node_id node \<mapsto> (Left, Right)))
             else (positions, handlePositions))
          nodes st"

definition layoutNode :: "Node list \<Rightarrow> posmap \<Rightarrow> handlemap \<Rightarrow> Node \<Rightarrow> Node option" where
  "layoutNode nodes positions handlePositions node =
     (case (map_of positions (node_id node), handlePositions (node_id node)) of
        (Some pos, Some handles) \<Rightarrow>
          (let nodeSize = getNodeSize nodes (node_id node)
           in Some (node\<lparr>targetPosition := Some (fst handles),
                         sourcePosition := Some (snd handles),
                         position := (fst pos - fst nodeSize / 2,
                                      snd pos - snd nodeSize / 2)\<rparr>))
      | _ \<Rightarrow> None)"

definition layoutEdge :: "Node \<Rightarrow> posmap \<Rightarrow> Node list \<Rightarrow> Edge \<Rightarrow> Edge option" where
  "layoutEdge rootNode positions newNodes edge =
     (case (find (\<lambda>n. node_id n = source edge) newNodes,
            find (\<lambda>n. node_id n = target edge) newNodes) of
        (Some src, Some tgt) \<Rightarrow>
          (case (if node_id src = node_id rootNode
                 then (case map_of positions (target edge) of
                         None \<Rightarrow> None
                       | Some p \<Rightarrow> Some (if fst p < rootX then ''left'' else ''right''))
                 else Some (if sourcePosition src = Some Left then ''left'' else ''right'')) of
             None \<Rightarrow> None
           | Some srcHandle \<Rightarrow>
               Some (edge\<lparr>sourceHandle := Some srcHandle,
                          targetHandle := Some (if targetPosition tgt = Some Left
                                                then ''left'' else ''right'')\<rparr>))
      | _ \<Rightarrow> Some edge)"

definition horizontalLayout :: "nat \<Rightarrow> Node list \<Rightarrow> Edge list \<Rightarrow> (Node list \<times> Edge list) option" where
  "horizontalLayout fuel nodes edges =
     (if length nodes = 0 then Some (nodes, edges)
      else (case horizontalPlaced fuel nodes edges of
              None \<Rightarrow> None
            | Some placed \<Rightarrow>
                (let st = placeOrphans nodes placed
                 in case those (map (layoutNode nodes (fst st) (snd st)) nodes) of
                      None \<Rightarrow> None
                    | Some newNodes \<Rightarrow>
                        (case those (map (layoutEdge (rootOf nodes edges) (fst st) newNodes)
                                       edges) of
                           None \<Rightarrow> None
                         | Some newEdges \<Rightarrow> Some (newNodes, newEdges)))))"

section \<open>Radial tree layout\<close>

definition baseRadius :: real where "baseRadius = 350"
definition radiusIncrement :: real where "radiusIncrement = 280"
definition minAngleSpacing :: real where "minAngleSpacing = 3 / 10"
definition parentChildPadding :: real where "parentChildPadding = 40"
definition parentChildStep :: real where "parentChildStep = 40"

text \<open>
  The remainder \<^verbatim>\<open>a % b\<close> of JavaScript takes the sign of the dividend, and
  \<^verbatim>\<open>Math.atan2\<close> is the angle of the point \<open>(x, y)\<close> in \<open>(-\<pi>, \<pi>]\<close>.
\<close>

definition js_rem :: "real \<Rightarrow> real \<Rightarrow> real" where
  "js_rem a b = a - b * of_int (if a / b \<ge> 0 then \<lfloor>a / b\<rfloor> else \<lceil>a / b\<rceil>)"

definition atan2 :: "real \<Rightarrow> real \<Rightarrow> real" where
  "atan2 y x =
     (if x > 0 then arctan (y / x)
      else if x < 0 \<and> y \<ge> 0 then arctan (y / x) + pi
      else if x < 0 \<and> y < 0 then arctan (y / x) - pi
      else if y > 0 then pi / 2
      else if y < 0 then - pi / 2
      else 0)"

definition getHandlePositionFromAngle :: "real \<Rightarrow> Position \<times> Position" where
  "getHandlePositionFromAngle angle =
     (let normalizedAngle = js_rem (js_rem angle (2 * pi) + 2 * pi) (2 * pi)
      in if normalizedAngle \<ge> 7 * pi / 4 \<or> normalizedAngle < pi / 4 then (Left, Right)
         else if normalizedAngle \<ge> pi / 4 \<and> normalizedAngle < 3 * pi / 4 then (Top, Bottom)
         else if normalizedAngle \<ge> 3 * pi / 4 \<and> normalizedAngle < 5 * pi / 4 then (Right, Left)
         else (Bottom, Top))"

text \<open>
  \<^verbatim>\<open>calculateLevels\<close> marks the nodes reached from a root and records their depth; a
  visited node is left at once. The state is \<open>(visited, levels)\<close>.
\<close>

fun calculateLevels ::
  "nat \<Rightarrow> (string \<rightharpoonup> string list) \<Rightarrow> string \<Rightarrow> nat \<Rightarrow> string set \<times> (string \<rightharpoonup> nat) \<Rightarrow>
   (string set \<times> (string \<rightharpoonup> nat)) option" where
  "calculateLevels 0 children nodeId lvl st = None"
| "calculateLevels (Suc fuel) children nodeId lvl st =
     (if nodeId \<in> fst st then Some st
      else foldM (\<lambda>child st'. calculateLevels fuel children child (lvl + 1) st')
             (kidsOf children nodeId)
             (insert nodeId (fst st), (snd st)(nodeId \<mapsto> lvl)))"

text \<open>The radius of the ring of the children of a parent.\<close>

definition halfDiagonal :: "Node list \<Rightarrow> string \<Rightarrow> real" where
  "halfDiagonal nodes nodeId =
     (let size = getNodeSize_radial nodes nodeId in max (fst size) (snd size) / 2)"

definition ringRadius :: "Node list \<Rightarrow> (string \<rightharpoonup> nat) \<Rightarrow> string \<Rightarrow> string list \<Rightarrow> real" where
  "ringRadius nodes levels parentId nodeChildren =
     (let parentLevel = (case levels parentId of Some l \<Rightarrow> l | None \<Rightarrow> 0);
          radius = baseRadius + real parentLevel * radiusIncrement;
          parentHalfDiagonal = halfDiagonal nodes parentId;
          maxChildHalfDiagonal =
            fold (\<lambda>childId m. if halfDiagonal nodes childId > m
                               then halfDiagonal nodes childId else m)
                 nodeChildren 0;
          minRequiredRadius = parentHalfDiagonal + maxChildHalfDiagonal + 80
      in if radius < minRequiredRadius then minRequiredRadius else radius)"

text \<open>
  \<^verbatim>\<open>positionChildren\<close> returns the angles of the children; the position of the parent
  is read once, before the children are placed.
\<close>

fun positionChildren ::
  "nat \<Rightarrow> Node list \<Rightarrow> (string \<rightharpoonup> string list) \<Rightarrow> (string \<rightharpoonup> nat) \<Rightarrow> string \<Rightarrow> real \<Rightarrow> real \<Rightarrow>
   posmap \<times> handlemap \<Rightarrow> (real list \<times> posmap \<times> handlemap) option" where
  "positionChildren 0 nodes children levels parentId startAngle endAngle st = None"
| "positionChildren (Suc fuel) nodes children levels parentId startAngle endAngle st =
     (let nodeChildren = kidsOf children parentId
      in if length nodeChildren = 0 then Some ([], st)
         else (case map_of (fst st) parentId of
                 None \<Rightarrow> None
               | Some parentPos \<Rightarrow>
                   (let radius = ringRadius nodes levels parentId nodeChildren;
                        availableAngle = endAngle - startAngle;
                        angleStep = max (availableAngle / real (length nodeChildren))
                                      minAngleSpacing
                    in foldM (\<lambda>(childId, index) (childAngles, st').
                                (let angle = startAngle + angleStep * (real index + 1 / 2);
                                     x = fst parentPos + cos angle * radius;
                                     y = snd parentPos + sin angle * radius;
                                     angleToParent = atan2 (snd parentPos - y) (fst parentPos - x);
                                     handles = getHandlePositionFromAngle angleToParent;
                                     childAngleSpan =
                                       min (angleStep * (9 / 10))
                                           (availableAngle / real (length nodeChildren))
                                 in case positionChildren fuel nodes children levels childId
                                           (angle - childAngleSpan / 2)
                                           (angle + childAngleSpan / 2)
                                           (AList.update childId (x, y) (fst st'),
                                            (snd st')(childId \<mapsto> handles)) of
                                      None \<Rightarrow> None
                                    | Some (angles, st'') \<Rightarrow> Some (childAngles @ [angle], st'')))
                             (zip nodeChildren [0 ..< length nodeChildren]) ([], st))))"

text \<open>\<^verbatim>\<open>layoutTree\<close> for one root; the state is \<open>(visited, positions, handlePositions)\<close>.\<close>

definition layoutTree ::
  "nat \<Rightarrow> Node list \<Rightarrow> (string \<rightharpoonup> string list) \<Rightarrow> string \<Rightarrow> real \<Rightarrow> real \<Rightarrow>
   string set \<times> posmap \<times> handlemap \<Rightarrow> (string set \<times> posmap \<times> handlemap) option" where
  "layoutTree fuel nodes children rootId offsetX offsetY st =
     (case calculateLevels fuel children rootId 0 (fst st, Map.empty) of
        None \<Rightarrow> None
      | Some (visited, levels) \<Rightarrow>
          (case positionChildren fuel nodes children levels rootId 0 (2 * pi)
                  (AList.update rootId (offsetX, offsetY) (fst (snd st)), snd (snd st)) of
             None \<Rightarrow> None
           | Some (rootChildAngles, positions, handlePositions) \<Rightarrow>
               Some (visited, positions,
                     handlePositions(rootId \<mapsto>
                       (if length rootChildAngles > 0
                        then (let sumX = fold (\<lambda>angle s. s + cos angle) rootChildAngles 0;
                                  sumY = fold (\<lambda>angle s. s + sin angle) rootChildAngles 0
                              in getHandlePositionFromAngle (atan2 sumY sumX))
                        else (Left, Right))))))"

text \<open>The \<^verbatim>\<open>while\<close> loop of the parent/child pass: the final \<open>cx\<close> of the child.\<close>

function nudgeChild ::
  "real \<times> real \<Rightarrow> real \<times> real \<Rightarrow> real \<Rightarrow> real \<times> real \<Rightarrow> real \<Rightarrow> nat \<Rightarrow> real \<Rightarrow> real" where
  "nudgeChild parentPos parentSize cy childSize direction iter cx =
     (if iter < maxParentChildIterations
      then (let parentLeft = fst parentPos - fst parentSize / 2;
                parentRight = fst parentPos + fst parentSize / 2;
                parentTop = snd parentPos - snd parentSize / 2;
                parentBottom = snd parentPos + snd parentSize / 2;
                childLeft = cx - fst childSize / 2;
                childRight = cx + fst childSize / 2;
                childTop = cy - snd childSize / 2;
                childBottom = cy + snd childSize / 2;
                overlapsParent =
                  (\<not> (childRight + parentChildPadding \<le> parentLeft \<or>
                       childLeft - parentChildPadding \<ge> parentRight \<or>
                       childBottom + parentChildPadding \<le> parentTop \<or>
                       childTop - parentChildPadding \<ge> parentBottom))
            in if \<not> overlapsParent then cx
               else nudgeChild parentPos parentSize cy childSize direction (iter + 1)
                      (cx + direction * parentChildStep))
      else cx)"
  by pat_completeness auto
termination
  by (relation "measure (\<lambda>(parentPos, parentSize, cy, childSize, direction, iter, cx).
                   maxParentChildIterations - iter)") auto

declare nudgeChild.simps [simp del]

definition nudgeEdge :: "Node list \<Rightarrow> Edge \<Rightarrow> posmap \<Rightarrow> posmap" where
  "nudgeEdge nodes edge positions =
     (case (map_of positions (source edge), map_of positions (target edge)) of
        (Some parentPos, Some childPos) \<Rightarrow>
          (let parentSize = getNodeSize_radial nodes (source edge);
               childSize = getNodeSize_radial nodes (target edge);
               direction = (if fst childPos \<ge> fst parentPos then 1 else - 1)
           in AList.update (target edge)
                (nudgeChild parentPos parentSize (snd childPos) childSize direction 0
                   (fst childPos),
                 snd childPos)
                positions)
      | _ \<Rightarrow> positions)"

text \<open>
  The state of the radial layout before the orphans are placed:
  \<open>(currentOffset, visited, positions, handlePositions)\<close>.
\<close>

definition radialPlaced ::
  "nat \<Rightarrow> Node list \<Rightarrow> Edge list \<Rightarrow> (real \<times> string set \<times> posmap \<times> handlemap) option" where
  "radialPlaced fuel nodes edges =
     (let roots = findRootNodes nodes edges;
          children = fst (buildTree nodes edges)
      in case foldM (\<lambda>rt (currentOffset, st).
                       case layoutTree fuel nodes children (node_id rt)
                              (currentOffset + 600) 600 st of
                         None \<Rightarrow> None
                       | Some st' \<Rightarrow> Some (currentOffset + 1200, st'))
                    roots (0, {}, [], Map.empty) of
           None \<Rightarrow> None
         | Some (currentOffset, visited, positions, handlePositions) \<Rightarrow>
             Some (currentOffset, visited, fold (nudgeEdge nodes) edges positions,
                   handlePositions))"

definition radialOrphans ::
  "Node list \<Rightarrow> string set \<Rightarrow> real \<times> posmap \<times> handlemap \<Rightarrow> real \<times> posmap \<times> handlemap" where
  "radialOrphans nodes visited st =
     fold (\<lambda>node (currentOffset, positions, handlePositions).
             if node_id node \<notin> visited
             then (currentOffset + 400,
                   AList.update (node_id node) (currentOffset + 600, 600) positions,
                   handlePositions(node_id node \<mapsto> (Left, Right)))
             else (currentOffset, positions, handlePositions))
          nodes st"

definition radialNode :: "posmap \<Rightarrow> handlemap \<Rightarrow> Node \<Rightarrow> Node" where
  "radialNode positions handlePositions node =
     (let pos = (case map_of positions (node_id node) of Some p \<Rightarrow> p | None \<Rightarrow> (0, 0));
          handles = (case handlePositions (node_id node) of
                       Some h \<Rightarrow> h | None \<Rightarrow> (Left, Right));
          nodeW = nullish (measured_width node) nodeWidth;
          nodeH = nullish (measured_height node) nodeHeight
      in node\<lparr>targetPosition := Some (fst handles),
              sourcePosition := Some (snd handles),
              position := (fst pos - nodeW / 2, snd pos - nodeH / 2)\<rparr>)"

definition radialLayout :: "nat \<Rightarrow> Node list \<Rightarrow> Edge list \<Rightarrow> Node list option" where
  "radialLayout fuel nodes edges =
     (if length nodes = 0 then Some nodes
      else (case radialPlaced fuel nodes edges of
              None \<Rightarrow> None
            | Some (currentOffset, visited, positions, handlePositions) \<Rightarrow>
                (let st = radialOrphans nodes visited (currentOffset, positions, handlePositions)
                 in Some (map (radialNode (fst (snd st)) (snd (snd st))) nodes))))"


section \<open>Rank-based layout\<close>

text \<open>
  The last path of \<^verbatim>\<open>getLayoutedElements\<close> runs for the direction \<open>TB\<close> only (\<open>LR\<close> and
  \<open>radial\<close> return before it), so \<^verbatim>\<open>isHorizontal\<close> is false there and the branches for
  a horizontal rank layout are never taken; the model has the vertical branches.

  The graph layout library is not part of the repository. It is a parameter \<open>dagre\<close>:
  from the sizes given to \<^verbatim>\<open>setNode\<close> and the pairs given to \<^verbatim>\<open>setEdge\<close> to the
  coordinates \<^verbatim>\<open>dagreGraph.node(id)\<close> after \<^verbatim>\<open>dagre.layout\<close>. These coordinates are
  objects of the library, which the redistribution within a level overwrites.
\<close>

type_synonym dagre = "(string \<times> real \<times> real) list \<Rightarrow> (string \<times> string) list \<Rightarrow> string \<rightharpoonup> real \<times> real"

definition rankRoot :: "Node list \<Rightarrow> Edge list \<Rightarrow> Node option" where
  "rankRoot nodes edges =
     (let targetIds = set (map target edges);
          rootNodes = filter (\<lambda>n. node_id n \<notin> targetIds) nodes
      in if length rootNodes > 0 then Some (hd rootNodes)
         else (case nodes of [] \<Rightarrow> None | n # rest \<Rightarrow> Some n))"

definition topSideNodes :: "Node list \<Rightarrow> Edge list \<Rightarrow> Node option \<Rightarrow> string set" where
  "topSideNodes nodes edges rootNode =
     (case rootNode of
        None \<Rightarrow> {}
      | Some rt \<Rightarrow>
          set (map node_id
                 (filter (\<lambda>node. node_id node \<noteq> node_id rt
                            \<and> snd (position node) + nullish (measured_height node) nodeHeight / 2
                              < snd (position rt) + nullish (measured_height rt) nodeHeight / 2)
                    nodes))
          \<union> set (map target (filter (\<lambda>edge. sourceHandle edge = Some ''top'') edges)))"

definition dagreInput :: "Node list \<Rightarrow> (string \<times> real \<times> real) list" where
  "dagreInput nodes =
     map (\<lambda>node. (node_id node, nullish (measured_width node) nodeWidth,
                   nullish (measured_height node) nodeHeight)) nodes"

text \<open>The levels of the nodes that have coordinates, in the order of first appearance.\<close>

definition nodesByLevel :: "Node list \<Rightarrow> (string \<rightharpoonup> real \<times> real) \<Rightarrow> (real \<times> string list) list" where
  "nodesByLevel nodes dpos =
     fold (\<lambda>node groups.
             if dpos (node_id node) \<noteq> None
             then groupInsert (nullish (level (data node)) 0) (node_id node) groups
             else groups)
          nodes []"

definition minVerticalSpacing :: real where "minVerticalSpacing = 250"
definition verticalRange :: real where "verticalRange = 1000"

definition distributeLevel ::
  "real \<Rightarrow> real \<times> string list \<Rightarrow> (string \<rightharpoonup> real \<times> real) \<Rightarrow> (string \<rightharpoonup> real \<times> real)" where
  "distributeLevel minLevel lvl dpos =
     (let nodesInLevel = sort_key (\<lambda>i. fst (the (dpos i))) (snd lvl);
          levelIndex = fst lvl - minLevel;
          basePos = levelIndex * minVerticalSpacing + 300
      in if length nodesInLevel = 1
         then dpos(hd nodesInLevel \<mapsto> (400, basePos))
         else (let spacing = max (verticalRange / (real (length nodesInLevel) + 1)) 100;
                   startPos = 200 + spacing
               in fold (\<lambda>(i, index) d. d(i \<mapsto> (startPos + real index * spacing, basePos)))
                    (zip nodesInLevel [0 ..< length nodesInLevel]) dpos))"

definition rankNode ::
  "Node \<Rightarrow> string set \<Rightarrow> (string \<rightharpoonup> real \<times> real) \<Rightarrow> Node \<Rightarrow> Node option" where
  "rankNode rootNode topSide dpos node =
     (case dpos (node_id node) of
        None \<Rightarrow> Some node
      | Some nodeWithPosition \<Rightarrow>
          (let nodeH = nullish (measured_height node) nodeHeight;
               finalX = fst nodeWithPosition - nullish (measured_width node) nodeWidth / 2;
               finalY0 = snd nodeWithPosition - nodeH / 2;
               shouldBeOnTop = (node_id node \<in> topSide);
               handles = (if node_id node \<noteq> node_id rootNode \<and> shouldBeOnTop
                          then (Bottom, Top) else (Top, Bottom))
           in case (if node_id node \<noteq> node_id rootNode
                    then (case dpos (node_id rootNode) of
                            None \<Rightarrow> None
                          | Some rootPos \<Rightarrow>
                              (let rootY' = snd rootPos;
                                   nodeY = snd nodeWithPosition;
                                   isOnTop = (nodeY < rootY')
                               in Some (if shouldBeOnTop \<and> \<not> isOnTop
                                        then rootY' - (nodeY - rootY') - nodeH
                                        else if \<not> shouldBeOnTop \<and> isOnTop
                                        then rootY' + (rootY' - nodeY) - nodeH / 2
                                        else finalY0)))
                    else Some finalY0) of
                None \<Rightarrow> None
              | Some finalY \<Rightarrow>
                  Some (node\<lparr>targetPosition := Some (fst handles),
                             sourcePosition := Some (snd handles),
                             position := (finalX, finalY)\<rparr>)))"

text \<open>\<^verbatim>\<open>edge.sourceHandle || 'bottom'\<close>: the empty string is falsy.\<close>

definition rankEdge :: "Node \<Rightarrow> Node list \<Rightarrow> Edge \<Rightarrow> Edge" where
  "rankEdge rootNode newNodes edge =
     (case (find (\<lambda>n. node_id n = source edge) newNodes,
            find (\<lambda>n. node_id n = target edge) newNodes) of
        (Some sourceNode, Some targetNode) \<Rightarrow>
          edge\<lparr>sourceHandle :=
                 (if node_id sourceNode = node_id rootNode
                  then (case sourceHandle edge of
                          None \<Rightarrow> Some ''bottom''
                        | Some h \<Rightarrow> if h = [] then Some ''bottom'' else Some h)
                  else if sourcePosition sourceNode = Some Top then Some ''top''
                  else if sourcePosition sourceNode = Some Bottom then Some ''bottom''
                  else sourceHandle edge),
               targetHandle :=
                 (if targetPosition targetNode = Some Top then Some ''top''
                  else if targetPosition targetNode = Some Bottom then Some ''bottom''
                  else targetHandle edge)\<rparr>
      | _ \<Rightarrow> edge)"

definition rankLayout :: "dagre \<Rightarrow> Node list \<Rightarrow> Edge list \<Rightarrow> (Node list \<times> Edge list) option" where
  "rankLayout dagre nodes edges =
     (case rankRoot nodes edges of
        None \<Rightarrow> Some ([], edges)
      | Some rootNode \<Rightarrow>
          (let topSide = topSideNodes nodes edges (Some rootNode);
               dpos0 = dagre (dagreInput nodes) (map (\<lambda>e. (source e, target e)) edges);
               levels = nodesByLevel nodes dpos0;
               dpos = (if levels = [] then dpos0
                       else fold (distributeLevel (Min (set (map fst levels)))) levels dpos0)
           in case those (map (rankNode rootNode topSide dpos) nodes) of
                None \<Rightarrow> None
              | Some newNodes \<Rightarrow> Some (newNodes, map (rankEdge rootNode newNodes) edges)))"

section \<open>The entry point\<close>

definition getLayoutedElements ::
  "nat \<Rightarrow> dagre \<Rightarrow> Node list \<Rightarrow> Edge list \<Rightarrow> LayoutDirection \<Rightarrow> (Node list \<times> Edge list) option" where
  "getLayoutedElements fuel dagre nodes edges direction =
     (if direction = Radial
      then (case radialLayout fuel nodes edges of
              None \<Rightarrow> None
            | Some newNodes \<Rightarrow> Some (newNodes, edges))
      else if direction = LR then horizontalLayout fuel nodes edges
      else rankLayout dagre nodes edges)"

section \<open>The claims in the words of the specification\<close>

text \<open>The handle identifier of a side.\<close>

definition sideName :: "Position \<Rightarrow> string" where
  "sideName p = (case p of Left \<Rightarrow> ''left'' | Right \<Rightarrow> ''right'' | Top \<Rightarrow> ''top''
                 | Bottom \<Rightarrow> ''bottom'')"

text \<open>
  Side consistency: the source handle of every edge names the outgoing anchor of its
  source node, and the target handle names the incoming anchor of its target node.
\<close>

definition handlesConsistent :: "Node list \<Rightarrow> Edge list \<Rightarrow> bool" where
  "handlesConsistent ns es =
     (\<forall>e \<in> set es. \<forall>s \<in> set ns. \<forall>t \<in> set ns.
        node_id s = source e \<and> node_id t = target e \<longrightarrow>
        sourceHandle e = map_option sideName (sourcePosition s)
        \<and> targetHandle e = map_option sideName (targetPosition t))"

text \<open>The handle positions the horizontal layout assigns: left/right pairs only.\<close>

definition handlesOK :: "handlemap \<Rightarrow> bool" where
  "handlesOK hp = (\<forall>k v. hp k = Some v \<longrightarrow> v = (Left, Right) \<or> v = (Right, Left))"

text \<open>
  Two invariants of the positions: the passes after the initial layout keep the set of
  keys, and a state is well-keyed when the root has a position and every key of the
  positions has handle positions.
\<close>

definition sameKeys :: "posmap \<Rightarrow> posmap \<Rightarrow> bool" where
  "sameKeys ps ps' = (dom (map_of ps') = dom (map_of ps))"

definition placedKeys :: "string \<Rightarrow> posmap \<times> handlemap \<Rightarrow> bool" where
  "placedKeys r st = (r \<in> dom (map_of (fst st)) \<and> dom (map_of (fst st)) \<subseteq> dom (snd st))"

text \<open>
  The fallback placement of an orphan. In the horizontal layout a node without a position
  after the traversal gets the centre \<open>(1300, 500)\<close>; in the radial layout the orphans
  get, in input order, the centres \<open>(currentOffset + 600 + 400 k, 600)\<close> for
  \<open>k = 0, 1, ...\<close>, where \<open>currentOffset\<close> is 1200 times the number of roots.
\<close>

definition fallbackPlaced :: "Node list \<Rightarrow> posmap \<Rightarrow> Node \<Rightarrow> Node \<Rightarrow> bool" where
  "fallbackPlaced nodes placedPositions n out =
     (map_of placedPositions (node_id n) = None \<longrightarrow>
        position out = (1300 - fst (getNodeSize nodes (node_id n)) / 2,
                        500 - snd (getNodeSize nodes (node_id n)) / 2)
        \<and> targetPosition out = Some Left \<and> sourcePosition out = Some Right)"

definition orphansBefore :: "Node list \<Rightarrow> string set \<Rightarrow> nat \<Rightarrow> nat" where
  "orphansBefore nodes visited i = length (filter (\<lambda>m. node_id m \<notin> visited) (take i nodes))"

definition radialFallback :: "Node list \<Rightarrow> string set \<Rightarrow> real \<Rightarrow> nat \<Rightarrow> Node \<Rightarrow> bool" where
  "radialFallback nodes visited currentOffset i out =
     (node_id (nodes ! i) \<notin> visited \<longrightarrow>
        position out
          = (currentOffset + 400 * real (orphansBefore nodes visited i) + 600
               - nullish (measured_width (nodes ! i)) nodeWidth / 2,
             600 - nullish (measured_height (nodes ! i)) nodeHeight / 2)
        \<and> targetPosition out = Some Left \<and> sourcePosition out = Some Right)"

text \<open>
  The box of an output node of the horizontal layout, as \<open>(left, top, right, bottom)\<close>,
  the bounding box of a list of boxes, and a box that lies outside another.
\<close>

definition boxOf :: "Node list \<Rightarrow> Node \<Rightarrow> real \<times> real \<times> real \<times> real" where
  "boxOf nodes out =
     (fst (position out), snd (position out),
      fst (position out) + fst (getNodeSize nodes (node_id out)),
      snd (position out) + snd (getNodeSize nodes (node_id out)))"

definition boundingBox :: "(real \<times> real \<times> real \<times> real) list \<Rightarrow> real \<times> real \<times> real \<times> real" where
  "boundingBox bs =
     (Min (set (map fst bs)), Min (set (map (fst \<circ> snd) bs)),
      Max (set (map (fst \<circ> snd \<circ> snd) bs)), Max (set (map (snd \<circ> snd \<circ> snd) bs)))"

definition outsideOf :: "real \<times> real \<times> real \<times> real \<Rightarrow> real \<times> real \<times> real \<times> real \<Rightarrow> bool" where
  "outsideOf b bb =
     (fst (snd (snd b)) \<le> fst bb \<or> fst (snd (snd bb)) \<le> fst b \<or>
      snd (snd (snd b)) \<le> fst (snd bb) \<or> snd (snd (snd bb)) \<le> fst (snd b))"

text \<open>
  An output node that differs from the input node in nothing but its position and its two
  anchors.
\<close>

definition sameButLayout :: "Node \<Rightarrow> Node \<Rightarrow> bool" where
  "sameButLayout n out =
     (out\<lparr>position := position n, sourcePosition := sourcePosition n,
          targetPosition := targetPosition n\<rparr> = n)"

text \<open>The Euclidean distance of two centres.\<close>

definition centreDistance :: "real \<times> real \<Rightarrow> real \<times> real \<Rightarrow> real" where
  "centreDistance p q = sqrt ((fst p - fst q)\<^sup>2 + (snd p - snd q)\<^sup>2)"

text \<open>The relation of a node to its children.\<close>

definition childRel :: "(string \<rightharpoonup> string list) \<Rightarrow> (string \<times> string) set" where
  "childRel children = {(p, c). c \<in> set (kidsOf children p)}"


text \<open>
  The invariant of the vertical scan over the offsets seen so far: with no minimum yet,
  no seen offset is clear; otherwise the state holds a clear seen offset whose summed
  distance is minimal among the clear seen offsets.
\<close>

definition bestSoFar ::
  "real \<Rightarrow> real \<Rightarrow> real \<Rightarrow> real \<Rightarrow> Node list \<Rightarrow> int set \<Rightarrow> real \<times> real \<times> real option \<Rightarrow> bool" where
  "bestSoFar x y w h ns seen best =
     (case snd (snd best) of
        None \<Rightarrow> (\<forall>yo \<in> seen. \<not> clearOf x (y + of_int yo) w h ns)
      | Some d \<Rightarrow>
          (\<exists>yo \<in> seen. clearOf x (y + of_int yo) w h ns
              \<and> fst best = x \<and> fst (snd best) = y + of_int yo
              \<and> d = summedDistance x (y + of_int yo) w h ns
              \<and> (\<forall>yo' \<in> seen. clearOf x (y + of_int yo') w h ns \<longrightarrow>
                     d \<le> summedDistance x (y + of_int yo') w h ns)))"


text \<open>
  The incremental placement in the words of the specification. A box is an axis-aligned
  rectangle \<open>((left, top), (right, bottom))\<close>. The candidate box has its top-left corner
  at the candidate position and the size of the node to place. The box of an existing node
  has its top-left corner at the position of the node and its effective size: the measured
  size, else the size stored on its data, else the size of the node to place. Two boxes
  overlap when neither lies strictly to the left of, to the right of, above or below the
  other. A candidate is free when its box, padded by 20 on every side, overlaps the box of
  no existing node, and its total distance is the sum of the Euclidean distances from its
  centre to the centres of the existing nodes.
\<close>

type_synonym box = "(real \<times> real) \<times> (real \<times> real)"

definition candidateBox :: "real \<times> real \<Rightarrow> real \<times> real \<Rightarrow> box" where
  "candidateBox pos boxSize = (pos, (fst pos + fst boxSize, snd pos + snd boxSize))"

definition effectiveSize :: "real \<times> real \<Rightarrow> Node \<Rightarrow> real \<times> real" where
  "effectiveSize candidateSize n =
     ((case measured n of
         Some m \<Rightarrow> (case m_width m of
                      Some v \<Rightarrow> v
                    | None \<Rightarrow> (case d_width (data n) of
                                 Some v \<Rightarrow> v | None \<Rightarrow> fst candidateSize))
       | None \<Rightarrow> (case d_width (data n) of Some v \<Rightarrow> v | None \<Rightarrow> fst candidateSize)),
      (case measured n of
         Some m \<Rightarrow> (case m_height m of
                      Some v \<Rightarrow> v
                    | None \<Rightarrow> (case d_height (data n) of
                                 Some v \<Rightarrow> v | None \<Rightarrow> snd candidateSize))
       | None \<Rightarrow> (case d_height (data n) of Some v \<Rightarrow> v | None \<Rightarrow> snd candidateSize)))"

definition existingBox :: "real \<times> real \<Rightarrow> Node \<Rightarrow> box" where
  "existingBox candidateSize n =
     (position n,
      (fst (position n) + fst (effectiveSize candidateSize n),
       snd (position n) + snd (effectiveSize candidateSize n)))"

definition padBox :: "real \<Rightarrow> box \<Rightarrow> box" where
  "padBox p b = ((fst (fst b) - p, snd (fst b) - p), (fst (snd b) + p, snd (snd b) + p))"

definition boxesOverlap :: "box \<Rightarrow> box \<Rightarrow> bool" where
  "boxesOverlap a b =
     (fst (fst a) \<le> fst (snd b) \<and> fst (fst b) \<le> fst (snd a)
      \<and> snd (fst a) \<le> snd (snd b) \<and> snd (fst b) \<le> snd (snd a))"

definition boxCentre :: "box \<Rightarrow> real \<times> real" where
  "boxCentre b = ((fst (fst b) + fst (snd b)) / 2, (snd (fst b) + snd (snd b)) / 2)"

definition freeCandidate :: "real \<times> real \<Rightarrow> real \<times> real \<Rightarrow> Node list \<Rightarrow> bool" where
  "freeCandidate pos boxSize existingNodes =
     list_all (\<lambda>n. \<not> boxesOverlap (padBox 20 (candidateBox pos boxSize)) (existingBox boxSize n))
       existingNodes"

definition totalDistance :: "real \<times> real \<Rightarrow> real \<times> real \<Rightarrow> Node list \<Rightarrow> real" where
  "totalDistance pos boxSize existingNodes =
     sum_list (map (\<lambda>n. centreDistance (boxCentre (candidateBox pos boxSize))
                           (boxCentre (existingBox boxSize n))) existingNodes)"

text \<open>The candidates of the vertical scan, in the order in which they are tried.\<close>

definition candidates :: "real \<Rightarrow> real \<Rightarrow> (real \<times> real) list" where
  "candidates initialX initialY =
     [(initialX, initialY - 200), (initialX, initialY - 150), (initialX, initialY - 100),
      (initialX, initialY - 50), (initialX, initialY), (initialX, initialY + 50),
      (initialX, initialY + 100), (initialX, initialY + 150), (initialX, initialY + 200)]"

text \<open>The box of a node with a given centre and size.\<close>

definition centredBox :: "real \<times> real \<Rightarrow> real \<times> real \<Rightarrow> box" where
  "centredBox centre boxSize =
     ((fst centre - fst boxSize / 2, snd centre - snd boxSize / 2),
      (fst centre + fst boxSize / 2, snd centre + snd boxSize / 2))"
section \<open>Fixtures for concrete inputs\<close>

text \<open>A node with no measured and no stored size, and an edge with no handles.\<close>

definition mkNode :: "string \<Rightarrow> Node" where
  "mkNode i = \<lparr>node_id = i, node_type = ''custom'',
                data = \<lparr>label = i, d_width = None, d_height = None, level = None\<rparr>,
                selected = False, measured = None, position = (0, 0),
                sourcePosition = None, targetPosition = None\<rparr>"

definition mkEdge :: "string \<Rightarrow> string \<Rightarrow> Edge" where
  "mkEdge s t = \<lparr>edge_id = s @ ''-'' @ t, source = s, target = t,
                  sourceHandle = None, targetHandle = None\<rparr>"

text \<open>A root \<open>a\<close> whose child \<open>b\<close> lies on the cycle \<open>b \<rightarrow> c \<rightarrow> b\<close>.\<close>

definition cyc_nodes :: "Node list" where
  "cyc_nodes = [mkNode ''a'', mkNode ''b'', mkNode ''c'']"

definition cyc_edges :: "Edge list" where
  "cyc_edges = [mkEdge ''a'' ''b'', mkEdge ''b'' ''c'', mkEdge ''c'' ''b'']"

text \<open>
  The precedence in the words of the specification: measured render size, then the size
  stored on the node's data, then the defaults 250 and 80.
\<close>

definition specSize :: "Node \<Rightarrow> real \<times> real" where
  "specSize n =
     ((case measured_width n of Some w \<Rightarrow> w
       | None \<Rightarrow> (case d_width (data n) of Some w \<Rightarrow> w | None \<Rightarrow> 250)),
      (case measured_height n of Some h \<Rightarrow> h
       | None \<Rightarrow> (case d_height (data n) of Some h \<Rightarrow> h | None \<Rightarrow> 80)))"

text \<open>A root \<open>r\<close> with the child \<open>a\<close> on its left and the child \<open>b\<close> on its right.\<close>

definition lr_nodes :: "Node list" where
  "lr_nodes = [mkNode ''r'', mkNode ''a'', mkNode ''b'']"

definition lr_edges :: "Edge list" where
  "lr_edges = [(mkEdge ''r'' ''a'')\<lparr>sourceHandle := Some ''left''\<rparr>, mkEdge ''r'' ''b'']"

definition placedNode :: "string \<Rightarrow> real \<times> real \<Rightarrow> Position \<Rightarrow> Position \<Rightarrow> Node" where
  "placedNode i p src tgt =
     (mkNode i)\<lparr>position := p, sourcePosition := Some src, targetPosition := Some tgt\<rparr>"

definition lr_out :: "Node list \<times> Edge list" where
  "lr_out =
     ([placedNode ''r'' (675, 460) Right Left,
       placedNode ''a'' (325, 460) Left Right,
       placedNode ''b'' (1025, 460) Right Left],
      [(mkEdge ''r'' ''a'')\<lparr>sourceHandle := Some ''left'', targetHandle := Some ''right''\<rparr>,
       (mkEdge ''r'' ''b'')\<lparr>sourceHandle := Some ''right'', targetHandle := Some ''left''\<rparr>])"

text \<open>A root \<open>r\<close> with the child \<open>a\<close>, and a node \<open>o\<close> that no edge touches.\<close>

definition o_nodes :: "Node list" where
  "o_nodes = [mkNode ''r'', mkNode ''a'', mkNode ''o'']"

definition o_edges :: "Edge list" where
  "o_edges = [mkEdge ''r'' ''a'']"

definition o_out :: "Node list \<times> Edge list" where
  "o_out =
     ([placedNode ''r'' (675, 460) Right Left,
       placedNode ''a'' (1025, 460) Right Left,
       placedNode ''o'' (1175, 460) Right Left],
      [(mkEdge ''r'' ''a'')\<lparr>sourceHandle := Some ''right'', targetHandle := Some ''left''\<rparr>])"

text \<open>A root \<open>r\<close> without children, and the nodes \<open>p\<close> and \<open>q\<close> on a cycle of their own.\<close>

definition pq_nodes :: "Node list" where
  "pq_nodes = [mkNode ''r'', mkNode ''p'', mkNode ''q'']"

definition pq_edges :: "Edge list" where
  "pq_edges = [mkEdge ''p'' ''q'', mkEdge ''q'' ''p'']"

definition pq_out :: "Node list" where
  "pq_out =
     [placedNode ''r'' (475, 560) Right Left,
      placedNode ''p'' (1675, 560) Right Left,
      placedNode ''q'' (2075, 560) Right Left]"

text \<open>Two nodes on a cycle, so that no node is a root.\<close>

definition loop_nodes :: "Node list" where
  "loop_nodes = [mkNode ''a'', mkNode ''b'']"

definition loop_edges :: "Edge list" where
  "loop_edges = [mkEdge ''a'' ''b'', mkEdge ''b'' ''a'']"

text \<open>A stand-in for the graph library that puts every node at the origin.\<close>

definition zeroDagre :: dagre where
  "zeroDagre sizes pairs = map_of (map (\<lambda>(i, w, h). (i, (0, 0))) sizes)"

text \<open>
  A root \<open>p\<close> and its child \<open>c\<close>, both measured 1000 by 1000, two more children \<open>d\<close>
  and \<open>e\<close> of the root, and a child \<open>g\<close> of \<open>c\<close>, of the default size.
\<close>

definition bigNode :: "string \<Rightarrow> Node" where
  "bigNode i = (mkNode i)\<lparr>measured := Some \<lparr>m_width = Some 1000, m_height = Some 1000\<rparr>\<rparr>"

definition rad_nodes :: "Node list" where
  "rad_nodes = [bigNode ''p'', bigNode ''c'', mkNode ''d'', mkNode ''e'', mkNode ''g'']"

definition rad_edges :: "Edge list" where
  "rad_edges = [mkEdge ''p'' ''c'', mkEdge ''p'' ''d'', mkEdge ''p'' ''e'', mkEdge ''c'' ''g'']"

text \<open>An existing node measured 200 by 150, higher than the box to place.\<close>

definition tallNode :: "string \<Rightarrow> Node" where
  "tallNode i = (mkNode i)\<lparr>measured := Some \<lparr>m_width = Some 200, m_height = Some 150\<rparr>\<rparr>"

text \<open>
  A root \<open>r\<close> with the child \<open>a\<close> on its left and the child \<open>b\<close> on its right, and a
  child \<open>g\<close> of \<open>a\<close>.
\<close>

definition lrg_nodes :: "Node list" where
  "lrg_nodes = [mkNode ''r'', mkNode ''a'', mkNode ''b'', mkNode ''g'']"

definition lrg_edges :: "Edge list" where
  "lrg_edges = [(mkEdge ''r'' ''a'')\<lparr>sourceHandle := Some ''left''\<rparr>, mkEdge ''r'' ''b'',
                mkEdge ''a'' ''g'']"

definition lrg_out :: "Node list \<times> Edge list" where
  "lrg_out =
     ([placedNode ''r'' (675, 460) Right Left,
       placedNode ''a'' (325, 460) Left Right,
       placedNode ''b'' (1025, 460) Right Left,
       placedNode ''g'' (- 25, 460) Left Right],
      [(mkEdge ''r'' ''a'')\<lparr>sourceHandle := Some ''left'', targetHandle := Some ''right''\<rparr>,
       (mkEdge ''r'' ''b'')\<lparr>sourceHandle := Some ''right'', targetHandle := Some ''left''\<rparr>,
       (mkEdge ''a'' ''g'')\<lparr>sourceHandle := Some ''left'', targetHandle := Some ''right''\<rparr>])"

text \<open>
  The same tree with \<open>g\<close> measured 250 by 250, and with the edge from \<open>c\<close> to \<open>g\<close>
  before the edge from \<open>p\<close> to \<open>c\<close> in the list of edges.
\<close>

definition squareNode :: "string \<Rightarrow> Node" where
  "squareNode i = (mkNode i)\<lparr>measured := Some \<lparr>m_width = Some 250, m_height = Some 250\<rparr>\<rparr>"

definition ovl_nodes :: "Node list" where
  "ovl_nodes = [bigNode ''p'', bigNode ''c'', mkNode ''d'', mkNode ''e'', squareNode ''g'']"

definition ovl_edges :: "Edge list" where
  "ovl_edges = [mkEdge ''c'' ''g'', mkEdge ''p'' ''c'', mkEdge ''p'' ''d'', mkEdge ''p'' ''e'']"
section \<open>Properties of the graph utilities\<close>

lemma findRootNodes_filter:
  "findRootNodes nodes edges =
     (if \<exists>n \<in> set nodes. \<forall>e \<in> set edges. target e \<noteq> node_id n
      then filter (\<lambda>n. \<forall>e \<in> set edges. target e \<noteq> node_id n) nodes
      else if nodes = [] then [] else [hd nodes])"
proof -
  have eq: "(\<lambda>n. node_id n \<notin> set (map target edges))
            = (\<lambda>n. \<forall>e \<in> set edges. target e \<noteq> node_id n)"
    by (rule ext) (force simp: image_iff)
  show ?thesis
    unfolding findRootNodes_def Let_def eq
    by (auto simp: filter_empty_conv)
qed

text \<open>
  Claim C9. \<^verbatim>\<open>findRootNodes\<close> returns exactly the nodes that no edge targets, in input
  order; when there is no such node and the node list is not empty it returns the list
  holding only the first node; for an empty node list it returns the empty list.
\<close>

theorem findRootNodes_spec:
  "((\<exists>n \<in> set nodes. \<forall>e \<in> set edges. target e \<noteq> node_id n) \<longrightarrow>
      findRootNodes nodes edges = filter (\<lambda>n. \<forall>e \<in> set edges. target e \<noteq> node_id n) nodes
      \<and> set (findRootNodes nodes edges)
          = {n \<in> set nodes. \<forall>e \<in> set edges. target e \<noteq> node_id n})
   \<and> ((\<forall>n \<in> set nodes. \<exists>e \<in> set edges. target e = node_id n) \<and> nodes \<noteq> [] \<longrightarrow>
      findRootNodes nodes edges = [hd nodes])
   \<and> findRootNodes [] edges = []"
  by (auto simp: findRootNodes_filter)

theorem findRootNodes_spec_witness:
  "list_ex (\<lambda>n. list_all (\<lambda>e. target e \<noteq> node_id n) [mkEdge ''a'' ''b''])
      [mkNode ''a'', mkNode ''b'']
   \<and> findRootNodes [mkNode ''a'', mkNode ''b''] [mkEdge ''a'' ''b''] = [mkNode ''a'']
   \<and> list_all (\<lambda>n. list_ex (\<lambda>e. target e = node_id n) [mkEdge ''a'' ''b'', mkEdge ''b'' ''a''])
      [mkNode ''a'', mkNode ''b'']
   \<and> findRootNodes [mkNode ''a'', mkNode ''b''] [mkEdge ''a'' ''b'', mkEdge ''b'' ''a'']
       = [mkNode ''a'']"
  using findRootNodes_spec [of "[mkNode ''a'', mkNode ''b'']" "[mkEdge ''a'' ''b'']"]
        findRootNodes_spec [of "[mkNode ''a'', mkNode ''b'']"
                               "[mkEdge ''a'' ''b'', mkEdge ''b'' ''a'']"]
  by (simp add: mkNode_def mkEdge_def)

section \<open>Properties of the sizing accessors\<close>

lemma fold_nodeMap_other:
  "k \<notin> node_id ` set nodes \<Longrightarrow> fold (\<lambda>n m. m(node_id n \<mapsto> n)) nodes m0 k = m0 k"
  by (induction nodes arbitrary: m0) auto

lemma fold_nodeMap_distinct:
  "distinct (map node_id nodes) \<Longrightarrow> n \<in> set nodes \<Longrightarrow>
   fold (\<lambda>n m. m(node_id n \<mapsto> n)) nodes m0 (node_id n) = Some n"
proof (induction nodes arbitrary: m0)
  case Nil
  then show ?case by simp
next
  case (Cons a nodes)
  show ?case
  proof (cases "n = a")
    case True
    have "node_id a \<notin> node_id ` set nodes"
      using Cons.prems by auto
    from fold_nodeMap_other [OF this, of "m0(node_id a \<mapsto> a)"] show ?thesis
      using True by (simp del: fun_upd_apply add: fun_upd_same)
  next
    case False
    with Cons show ?thesis by simp
  qed
qed

lemma nodeMap_distinct:
  "distinct (map node_id nodes) \<Longrightarrow> n \<in> set nodes \<Longrightarrow> nodeMap nodes (node_id n) = Some n"
  by (simp add: nodeMap_def fold_nodeMap_distinct)

lemma nodeMap_other: "k \<notin> node_id ` set nodes \<Longrightarrow> nodeMap nodes k = None"
  by (simp add: nodeMap_def fold_nodeMap_other)

lemma find_distinct:
  "distinct (map node_id nodes) \<Longrightarrow> n \<in> set nodes \<Longrightarrow>
   find (\<lambda>m. node_id m = node_id n) nodes = Some n"
  by (induction nodes) (auto simp: image_iff)

lemma find_other: "k \<notin> node_id ` set nodes \<Longrightarrow> find (\<lambda>m. node_id m = k) nodes = None"
  by (induction nodes) auto

text \<open>
  Claim C8, as stated, fails: the accessor of the radial layout never reads the size
  stored on the node's data, and a measured size of zero is returned as it is.
\<close>

theorem getNodeSize_counterexample:
  "getNodeSize_radial [(mkNode ''a'')\<lparr>data := \<lparr>label = ''a'', d_width = Some 400,
                                              d_height = Some 300, level = None\<rparr>\<rparr>] ''a''
     \<noteq> specSize ((mkNode ''a'')\<lparr>data := \<lparr>label = ''a'', d_width = Some 400,
                                           d_height = Some 300, level = None\<rparr>\<rparr>)
   \<and> \<not> 0 < fst (getNodeSize
                  [(mkNode ''a'')\<lparr>measured := Some \<lparr>m_width = Some 0, m_height = Some 0\<rparr>\<rparr>]
                  ''a'')"
  by (simp add: getNodeSize_radial_def getNodeSize_def nodeMap_def specSize_def mkNode_def
        measured_width_def measured_height_def nodeWidth_def nodeHeight_def)

text \<open>
  Claim C8, amended. For a node of a list with unique ids, the accessor of the horizontal
  layout follows the precedence measured size, then the size stored on the node's data,
  then the defaults 250 and 80, for the width and for the height separately. The accessor
  of the radial layout returns the measured size when there is one, and the defaults when
  the node has neither a measured nor a stored size. For an id that is no node's id both
  return the defaults. The size of the horizontal accessor is positive when every
  measured and stored dimension of the node is positive.
\<close>

theorem getNodeSize_precedence:
  assumes "distinct (map node_id nodes)" and "n \<in> set nodes"
  shows "getNodeSize nodes (node_id n) = specSize n
     \<and> (\<forall>w. measured_width n = Some w \<longrightarrow> fst (getNodeSize_radial nodes (node_id n)) = w)
     \<and> (\<forall>h. measured_height n = Some h \<longrightarrow> snd (getNodeSize_radial nodes (node_id n)) = h)
     \<and> (measured_width n = None \<and> d_width (data n) = None \<longrightarrow>
          fst (getNodeSize_radial nodes (node_id n)) = 250)
     \<and> (measured_height n = None \<and> d_height (data n) = None \<longrightarrow>
          snd (getNodeSize_radial nodes (node_id n)) = 80)
     \<and> (\<forall>k. k \<notin> node_id ` set nodes \<longrightarrow>
          getNodeSize nodes k = (250, 80) \<and> getNodeSize_radial nodes k = (250, 80))
     \<and> ((\<forall>v \<in> set_option (measured_width n) \<union> set_option (measured_height n)
                 \<union> set_option (d_width (data n)) \<union> set_option (d_height (data n)). 0 < v)
          \<longrightarrow> 0 < fst (getNodeSize nodes (node_id n)) \<and> 0 < snd (getNodeSize nodes (node_id n)))"
proof -
  note defs = getNodeSize_def getNodeSize_radial_def specSize_def nodeWidth_def nodeHeight_def
  have h: "getNodeSize nodes (node_id n) = specSize n"
    using assms by (simp add: defs nodeMap_distinct split: option.splits)
  have pos: "(\<forall>v \<in> set_option (measured_width n) \<union> set_option (measured_height n)
                 \<union> set_option (d_width (data n)) \<union> set_option (d_height (data n)). 0 < v)
          \<longrightarrow> 0 < fst (getNodeSize nodes (node_id n)) \<and> 0 < snd (getNodeSize nodes (node_id n))"
    unfolding h by (auto simp: specSize_def split: option.splits)
  have r: "find (\<lambda>m. node_id m = node_id n) nodes = Some n"
    using assms by (rule find_distinct)
  have r1: "\<forall>w. measured_width n = Some w \<longrightarrow> fst (getNodeSize_radial nodes (node_id n)) = w"
    by (simp add: defs r)
  have r2: "\<forall>h. measured_height n = Some h \<longrightarrow> snd (getNodeSize_radial nodes (node_id n)) = h"
    by (simp add: defs r)
  have r3: "measured_width n = None \<and> d_width (data n) = None \<longrightarrow>
         fst (getNodeSize_radial nodes (node_id n)) = 250"
    by (simp add: defs r)
  have r4: "measured_height n = None \<and> d_height (data n) = None \<longrightarrow>
         snd (getNodeSize_radial nodes (node_id n)) = 80"
    by (simp add: defs r)
  have other: "\<forall>k. k \<notin> node_id ` set nodes \<longrightarrow>
         getNodeSize nodes k = (250, 80) \<and> getNodeSize_radial nodes k = (250, 80)"
    by (simp add: defs nodeMap_other find_other)
  from h r1 r2 r3 r4 other pos show ?thesis by blast
qed

theorem getNodeSize_precedence_witness:
  "distinct (map node_id
       [(mkNode ''a'')\<lparr>measured := Some \<lparr>m_width = Some 120, m_height = None\<rparr>,
                       data := \<lparr>label = ''a'', d_width = Some 400, d_height = Some 300,
                                level = None\<rparr>\<rparr>])
   \<and> getNodeSize
       [(mkNode ''a'')\<lparr>measured := Some \<lparr>m_width = Some 120, m_height = None\<rparr>,
                       data := \<lparr>label = ''a'', d_width = Some 400, d_height = Some 300,
                                level = None\<rparr>\<rparr>] ''a'' = (120, 300)
   \<and> fst (getNodeSize_radial
       [(mkNode ''a'')\<lparr>measured := Some \<lparr>m_width = Some 120, m_height = None\<rparr>,
                       data := \<lparr>label = ''a'', d_width = Some 400, d_height = Some 300,
                                level = None\<rparr>\<rparr>] ''a'') = 120
   \<and> getNodeSize
       [(mkNode ''a'')\<lparr>measured := Some \<lparr>m_width = Some 120, m_height = None\<rparr>,
                       data := \<lparr>label = ''a'', d_width = Some 400, d_height = Some 300,
                                level = None\<rparr>\<rparr>] ''zz'' = (250, 80)"
  using getNodeSize_precedence
    [of "[(mkNode ''a'')\<lparr>measured := Some \<lparr>m_width = Some 120, m_height = None\<rparr>,
                          data := \<lparr>label = ''a'', d_width = Some 400, d_height = Some 300,
                                   level = None\<rparr>\<rparr>]"
        "(mkNode ''a'')\<lparr>measured := Some \<lparr>m_width = Some 120, m_height = None\<rparr>,
                        data := \<lparr>label = ''a'', d_width = Some 400, d_height = Some 300,
                                 level = None\<rparr>\<rparr>"]
  by (simp add: mkNode_def specSize_def measured_width_def measured_height_def)

section \<open>Properties of the incremental placement\<close>

lemma scanExisting_overlap:
  "fst (scanExisting x y w h ns acc) = (\<not> clearOf x y w h ns)"
  by (induction ns arbitrary: acc) (auto simp: clearOf_def)

lemma scanExisting_total:
  "clearOf x y w h ns \<Longrightarrow>
   snd (scanExisting x y w h ns acc) = acc + summedDistance x y w h ns"
  by (induction ns arbitrary: acc) (auto simp: clearOf_def summedDistance_def)

lemma scanVertical_unrolled:
  "scanVertical x y w h ns (- 200) best = fold (tryOffset x y w h ns) yOffsets best"
  by (simp add: yOffsets_def scanVertical.simps [of _ _ _ _ _ "- 200"]
        scanVertical.simps [of _ _ _ _ _ "- 150"] scanVertical.simps [of _ _ _ _ _ "- 100"]
        scanVertical.simps [of _ _ _ _ _ "- 50"] scanVertical.simps [of _ _ _ _ _ "0"]
        scanVertical.simps [of _ _ _ _ _ "50"] scanVertical.simps [of _ _ _ _ _ "100"]
        scanVertical.simps [of _ _ _ _ _ "150"] scanVertical.simps [of _ _ _ _ _ "200"]
        scanVertical.simps [of _ _ _ _ _ "250"])

lemma tryOffset_bestSoFar:
  assumes "bestSoFar x y w h ns seen best"
  shows "bestSoFar x y w h ns (insert yo seen) (tryOffset x y w h ns yo best)"
proof (cases "clearOf x (y + of_int yo) w h ns")
  case False
  then have "tryOffset x y w h ns yo best = best"
    by (simp add: tryOffset_def Let_def scanExisting_overlap)
  with assms False show ?thesis
    by (auto simp: bestSoFar_def split: option.splits)
next
  case True
  then have scan: "fst (scanExisting x (y + of_int yo) w h ns 0) = False"
    "snd (scanExisting x (y + of_int yo) w h ns 0) = summedDistance x (y + of_int yo) w h ns"
    by (simp_all add: scanExisting_overlap scanExisting_total)
  show ?thesis
  proof (cases "snd (snd best)")
    case None
    then have "tryOffset x y w h ns yo best
                 = (x, y + of_int yo, Some (summedDistance x (y + of_int yo) w h ns))"
      by (simp add: tryOffset_def Let_def scan)
    with assms None True show ?thesis
      by (auto simp: bestSoFar_def)
  next
    case (Some d)
    show ?thesis
    proof (cases "summedDistance x (y + of_int yo) w h ns < d")
      case less: True
      then have "tryOffset x y w h ns yo best
                   = (x, y + of_int yo, Some (summedDistance x (y + of_int yo) w h ns))"
        by (simp add: tryOffset_def Let_def scan Some)
      with assms Some True less show ?thesis
        by (fastforce simp: bestSoFar_def)
    next
      case geq: False
      then have "tryOffset x y w h ns yo best = best"
        by (simp add: tryOffset_def Let_def scan Some)
      with assms Some geq show ?thesis
        by (fastforce simp: bestSoFar_def)
    qed
  qed
qed

lemma fold_tryOffset_bestSoFar:
  "bestSoFar x y w h ns seen best \<Longrightarrow>
   bestSoFar x y w h ns (seen \<union> set yos) (fold (tryOffset x y w h ns) yos best)"
proof (induction yos arbitrary: seen best)
  case Nil
  then show ?case by simp
next
  case (Cons yo yos)
  from Cons.IH [OF tryOffset_bestSoFar [OF Cons.prems, of yo]]
  show ?case by simp
qed

lemma scanVertical_bestSoFar:
  "bestSoFar x y w h ns (set yOffsets)
     (scanVertical x y w h ns (- 200) (x, y, None))"
proof -
  have "bestSoFar x y w h ns {} (x, y, None)"
    by (simp add: bestSoFar_def)
  from fold_tryOffset_bestSoFar [OF this, of yOffsets]
  show ?thesis by (simp add: scanVertical_unrolled)
qed

text \<open>The test and the distance of the scan are those of the specification.\<close>

lemma existingSize_effective:
  "(existingWidth w n, existingHeight h n) = effectiveSize (w, h) n"
  by (simp add: existingWidth_def existingHeight_def effectiveSize_def nullish.simps
        nullish_opt.simps measured_width_def measured_height_def split: option.splits)

lemma overlapsExisting_boxes:
  "overlapsExisting x y w h n
     = boxesOverlap (padBox 20 (candidateBox (x, y) (w, h))) (existingBox (w, h) n)"
proof -
  have "existingWidth w n = fst (effectiveSize (w, h) n)"
    "existingHeight h n = snd (effectiveSize (w, h) n)"
    by (simp_all add: existingSize_effective [symmetric])
  then show ?thesis
    by (auto simp: overlapsExisting_def boxesOverlap_def padBox_def candidateBox_def
          existingBox_def padding_def Let_def)
qed

lemma centerDistance_boxes:
  "centerDistance x y w h n
     = centreDistance (boxCentre (candidateBox (x, y) (w, h))) (boxCentre (existingBox (w, h) n))"
proof -
  have "existingWidth w n = fst (effectiveSize (w, h) n)"
    "existingHeight h n = snd (effectiveSize (w, h) n)"
    by (simp_all add: existingSize_effective [symmetric])
  then show ?thesis
    by (simp add: centerDistance_def centreDistance_def boxCentre_def candidateBox_def
          existingBox_def Let_def)
qed

lemma clearOf_free: "clearOf x y w h ns = freeCandidate (x, y) (w, h) ns"
  by (simp add: clearOf_def freeCandidate_def overlapsExisting_boxes list_all_iff)

lemma summedDistance_total: "summedDistance x y w h ns = totalDistance (x, y) (w, h) ns"
proof -
  have "centerDistance x y w h
          = (\<lambda>n. centreDistance (boxCentre (candidateBox (x, y) (w, h)))
                   (boxCentre (existingBox (w, h) n)))"
    by (rule ext) (rule centerDistance_boxes)
  then show ?thesis by (simp add: summedDistance_def totalDistance_def)
qed

lemma candidates_offsets:
  "candidates x y = map (\<lambda>yo. (x, y + of_int yo)) yOffsets"
  by (simp add: candidates_def yOffsets_def)

text \<open>
  Claim C6. When at least one of the nine candidates \<open>(initialX, initialY - 200)\<close>, ...,
  \<open>(initialX, initialY + 200)\<close> (steps of 50) is free, that is, its box padded by 20
  overlaps the box of no existing node, the function returns one of the candidates, at
  \<open>initialX\<close>, which is free and whose total distance from its centre to the centres of
  the existing nodes is least among the free candidates. The function is total: both
  scans are bounded loops, and it returns a position for every input.
\<close>

theorem findNonOverlappingPosition_best:
  assumes "list_ex (\<lambda>c. freeCandidate c (w, h) existingNodes) (candidates initialX initialY)"
  shows "findNonOverlappingPosition initialX initialY w h existingNodes direction
           \<in> set (candidates initialX initialY)
         \<and> fst (findNonOverlappingPosition initialX initialY w h existingNodes direction)
             = initialX
         \<and> freeCandidate
             (findNonOverlappingPosition initialX initialY w h existingNodes direction)
             (w, h) existingNodes
         \<and> (\<forall>c \<in> set (candidates initialX initialY).
               freeCandidate c (w, h) existingNodes \<longrightarrow>
               totalDistance
                 (findNonOverlappingPosition initialX initialY w h existingNodes direction)
                 (w, h) existingNodes
                 \<le> totalDistance c (w, h) existingNodes)"
proof -
  let ?best = "scanVertical initialX initialY w h existingNodes (- 200)
                 (initialX, initialY, None)"
  have inv: "bestSoFar initialX initialY w h existingNodes (set yOffsets) ?best"
    by (rule scanVertical_bestSoFar)
  from assms obtain yo0 where "yo0 \<in> set yOffsets"
    "clearOf initialX (initialY + of_int yo0) w h existingNodes"
    by (auto simp: list_ex_iff candidates_offsets clearOf_free)
  with inv obtain d where d: "snd (snd ?best) = Some d"
    by (cases "snd (snd ?best)") (auto simp: bestSoFar_def)
  with inv obtain yo where yo: "yo \<in> set yOffsets"
    "clearOf initialX (initialY + of_int yo) w h existingNodes"
    "fst ?best = initialX" "fst (snd ?best) = initialY + of_int yo"
    "d = summedDistance initialX (initialY + of_int yo) w h existingNodes"
    "\<forall>yo' \<in> set yOffsets. clearOf initialX (initialY + of_int yo') w h existingNodes \<longrightarrow>
        d \<le> summedDistance initialX (initialY + of_int yo') w h existingNodes"
    by (auto simp: bestSoFar_def)
  have res: "findNonOverlappingPosition initialX initialY w h existingNodes direction
          = (initialX, initialY + of_int yo)"
    by (simp add: findNonOverlappingPosition_def Let_def d yo(3,4))
  from yo(1) have "(initialX, initialY + of_int yo) \<in> set (candidates initialX initialY)"
    unfolding candidates_offsets by (simp only: set_map) (rule imageI)
  moreover from yo(2) have "freeCandidate (initialX, initialY + of_int yo) (w, h) existingNodes"
    by (simp add: clearOf_free)
  moreover have "\<forall>c \<in> set (candidates initialX initialY).
               freeCandidate c (w, h) existingNodes \<longrightarrow>
               totalDistance (initialX, initialY + of_int yo) (w, h) existingNodes
                 \<le> totalDistance c (w, h) existingNodes"
    using yo(5,6) by (auto simp: candidates_offsets clearOf_free summedDistance_total)
  ultimately show ?thesis unfolding res by simp
qed

theorem findNonOverlappingPosition_best_witness:
  "list_ex (\<lambda>c. freeCandidate c (200, 60) [tallNode ''a'']) (candidates 0 0)
   \<and> findNonOverlappingPosition 0 0 200 60 [tallNode ''a''] SideRight = (0, - 100)
   \<and> freeCandidate (0, - 100) (200, 60) [tallNode ''a'']
   \<and> \<not> freeCandidate (0, 100) (200, 60) [tallNode ''a'']
   \<and> totalDistance (0, - 100) (200, 60) [tallNode ''a''] = 145
   \<and> totalDistance (0, 200) (200, 60) [tallNode ''a''] = 155"
  using findNonOverlappingPosition_best [of 200 60 "[tallNode ''a'']" 0 0 SideRight]
  by (simp add: findNonOverlappingPosition_def scanVertical_unrolled yOffsets_def tryOffset_def
        overlapsExisting_def centerDistance_def existingWidth_def
        existingHeight_def mkNode_def tallNode_def measured_width_def measured_height_def
        padding_def candidates_def freeCandidate_def totalDistance_def boxesOverlap_def
        padBox_def candidateBox_def existingBox_def effectiveSize_def boxCentre_def
        centreDistance_def)

section \<open>Recursion over a cycle\<close>

lemma mkNode_id: "node_id (mkNode i) = i"
  by (simp add: mkNode_def)

lemma cyc_kids:
  "kidsOf (fst (buildTree cyc_nodes cyc_edges)) ''a'' = [''b'']"
  "kidsOf (fst (buildTree cyc_nodes cyc_edges)) ''b'' = [''c'']"
  "kidsOf (fst (buildTree cyc_nodes cyc_edges)) ''c'' = [''b'']"
  by (simp_all add: cyc_nodes_def cyc_edges_def buildTree_def buildTree_edge_def kidsOf_def
        mkNode_def mkEdge_def)

lemma cyc_root: "rootOf cyc_nodes cyc_edges = mkNode ''a''"
  by (simp add: rootOf_def cyc_nodes_def cyc_edges_def mkNode_def mkEdge_def)

lemma cyc_sides:
  "sideChildren cyc_nodes cyc_edges (mkNode ''a'') [''b''] SideRight = [''b'']"
  "sideChildren cyc_nodes cyc_edges (mkNode ''a'') [''b''] SideLeft = []"
  by (simp_all add: sideChildren_def rootChildSide_def cyc_nodes_def cyc_edges_def
        mkNode_def mkEdge_def measured_width_def)

text \<open>On the cycle the subtree height is never computed, whatever the depth allowed.\<close>

lemma calcSubtreeHeight_cycle:
  "calcSubtreeHeight fuel cyc_nodes (fst (buildTree cyc_nodes cyc_edges)) ''b'' = None
   \<and> calcSubtreeHeight fuel cyc_nodes (fst (buildTree cyc_nodes cyc_edges)) ''c'' = None"
  by (induction fuel) (simp_all add: cyc_kids)

lemma horizontalPlaced_cycle: "horizontalPlaced fuel cyc_nodes cyc_edges = None"
  by (simp add: horizontalPlaced_def Let_def cyc_root mkNode_id cyc_kids cyc_sides
        layoutSide_def subtreeHeights_def calcSubtreeHeight_cycle)

text \<open>
  Claim C3 fails on the code. The horizontal layout of the graph with the nodes \<open>a\<close>, \<open>b\<close>,
  \<open>c\<close> and the edges \<open>a \<rightarrow> b\<close>, \<open>b \<rightarrow> c\<close>, \<open>c \<rightarrow> b\<close> returns no result, however deep
  the recursion may go: \<^verbatim>\<open>calcSubtreeHeight\<close> has no visited-set and follows the cycle
  without end.
\<close>

theorem horizontalLayout_cycle_never_returns:
  "\<forall>fuel. horizontalLayout fuel
            [mkNode ''a'', mkNode ''b'', mkNode ''c'']
            [mkEdge ''a'' ''b'', mkEdge ''b'' ''c'', mkEdge ''c'' ''b''] = None"
  using horizontalPlaced_cycle
  by (simp add: horizontalLayout_def cyc_nodes_def cyc_edges_def)


section \<open>Evaluation of the horizontal layout\<close>

lemmas horizontal_defs =
  horizontalLayout_def horizontalPlaced_def rootOf_def buildTree_def buildTree_edge_def kidsOf_def
  sideChildren_def rootChildSide_def layoutSide_def subtreeHeights_def centerRoot_def extendY_def
  resolveOverlaps_def resolvePass_def siblingsByParent_def nodesByColumn_def resolveSiblings_def
  resolveColumn_def siblingStep_def columnStep_def checkOverlap_def neededSpace_def
  getNodeBounds_def nodesOverlap_def moveNodeWithDirectChildren_def groupInsert_def js_round_def
  yOf_def placeOrphans_def layoutNode_def layoutEdge_def getNodeSize_def nodeMap_def
  sideHandles_def measured_width_def measured_height_def rootX_def rootY_def
  horizontalSpacing_def baseVerticalSpacing_def minPadding_def maxIterations_def
  parentChildPaddingX_def parentChildStepX_def maxParentChildIterations_def nodeWidth_def
  nodeHeight_def Let_def
  resolveLoop.simps [of _ _ _ 0] resolveLoop.simps [of _ _ _ "Suc 0"]
  pushChildAway.simps [of _ _ _ _ _ 0]

lemma lr_eval: "horizontalLayout (Suc (Suc 0)) lr_nodes lr_edges = Some lr_out"
  by (simp add: lr_nodes_def lr_edges_def lr_out_def placedNode_def mkNode_def mkEdge_def
        horizontal_defs)

section \<open>Folds that may fail\<close>

lemma foldM_invariant:
  assumes "foldM f xs s = Some s'" and "I s"
    and "\<And>x t t'. x \<in> set xs \<Longrightarrow> I t \<Longrightarrow> f x t = Some t' \<Longrightarrow> I t'"
  shows "I s'"
  using assms
proof (induction xs arbitrary: s)
  case Nil
  then show ?case by simp
next
  case (Cons x xs)
  from Cons.prems(1) obtain t where t: "f x s = Some t" and rest: "foldM f xs t = Some s'"
    by (auto split: option.splits)
  have "I t" using Cons.prems(2,3) t by auto
  from Cons.IH [OF rest this] Cons.prems(3) show ?case by auto
qed

lemma those_map_all2:
  assumes "those (map f xs) = Some ys" and "\<And>x y. x \<in> set xs \<Longrightarrow> f x = Some y \<Longrightarrow> P x y"
  shows "list_all2 P xs ys"
  using assms
proof (induction xs arbitrary: ys)
  case Nil
  then show ?case by simp
next
  case (Cons x xs)
  then show ?case by (auto split: option.splits)
qed

lemma those_map_set:
  assumes "those (map f xs) = Some ys" and "y \<in> set ys"
  shows "\<exists>x \<in> set xs. f x = Some y"
  using assms
proof (induction xs arbitrary: ys)
  case Nil
  then show ?case by simp
next
  case (Cons x xs)
  then show ?case by (auto split: option.splits)
qed

section \<open>Handles of the horizontal layout\<close>

lemma sideHandles_OK: "sideHandles d = (Left, Right) \<or> sideHandles d = (Right, Left)"
  by (cases d) (simp_all add: sideHandles_def)

lemma handlesOK_upd:
  "handlesOK hp \<Longrightarrow> v = (Left, Right) \<or> v = (Right, Left) \<Longrightarrow> handlesOK (hp(k \<mapsto> v))"
  by (auto simp: handlesOK_def)

text \<open>
  An invariant of the state \<open>(positions, handlePositions)\<close> that every placement of a
  node keeps is kept by \<^verbatim>\<open>initialLayout\<close> and by the layout of a side.
\<close>

lemma initialLayout_invariant:
  assumes step: "\<And>k p d t. I t \<Longrightarrow> I (AList.update k p (fst t), (snd t)(k \<mapsto> sideHandles d))"
  shows "initialLayout fuel nodes children nodeId x parentY direction st = Some (h, st') \<Longrightarrow>
         I st \<Longrightarrow> I st'"
proof (induction fuel arbitrary: nodeId x parentY st h st')
  case 0
  then show ?case by simp
next
  case (Suc fuel)
  let ?st1 = "(AList.update nodeId (x, parentY) (fst st),
                 (snd st)(nodeId \<mapsto> sideHandles direction))"
  have ok1: "I ?st1"
    using Suc.prems(2) by (rule step)
  show ?case
  proof (cases "length (kidsOf children nodeId) = 0")
    case True
    with Suc.prems(1) have "st' = ?st1" by (simp add: Let_def)
    with ok1 show ?thesis by (simp del: fun_upd_apply)
  next
    case False
    with Suc.prems(1) obtain childHeights nextX y0 cy where
      fm: "foldM (\<lambda>(kidId, kidHeight) (currentY, st').
                    case initialLayout fuel nodes children kidId nextX
                           (currentY + kidHeight / 2) direction st' of
                      None \<Rightarrow> None
                    | Some (h, st'') \<Rightarrow> Some (currentY + kidHeight + baseVerticalSpacing, st''))
              (zip (kidsOf children nodeId) childHeights) (y0, ?st1) = Some (cy, st')"
      by (auto simp: Let_def split: option.splits)
    have "I (snd (cy, st'))"
    proof (rule foldM_invariant [OF fm, where I = "\<lambda>s. I (snd s)"])
      show "I (snd (y0, ?st1))" using ok1 by (simp del: fun_upd_apply)
    next
      fix xx t t'
      assume "I (snd t)" and
        "(case xx of (kidId, kidHeight) \<Rightarrow> \<lambda>(currentY, st').
                    case initialLayout fuel nodes children kidId nextX
                           (currentY + kidHeight / 2) direction st' of
                      None \<Rightarrow> None
                    | Some (h, st'') \<Rightarrow> Some (currentY + kidHeight + baseVerticalSpacing, st''))
           t = Some t'"
      then show "I (snd t')"
        using Suc.IH by (auto split: prod.splits option.splits)
    qed
    then show ?thesis by simp
  qed
qed

lemma layoutSide_invariant:
  assumes step: "\<And>k p d t. I t \<Longrightarrow> I (AList.update k p (fst t), (snd t)(k \<mapsto> sideHandles d))"
    and "layoutSide fuel nodes children direction ids st = Some st'" and "I st"
  shows "I st'"
proof (cases "length ids > 0")
  case False
  with assms show ?thesis by (simp add: layoutSide_def)
next
  case True
  with assms(2) obtain heights nextX y0 cy where
    fm: "foldM (\<lambda>(childId, kidHeight) (currentY, st').
                  case initialLayout fuel nodes children childId nextX
                         (currentY + kidHeight / 2) direction st' of
                    None \<Rightarrow> None
                  | Some (h, st'') \<Rightarrow> Some (currentY + kidHeight + baseVerticalSpacing, st''))
            (zip ids heights) (y0, st) = Some (cy, st')"
    by (auto simp: layoutSide_def Let_def split: option.splits)
  have "I (snd (cy, st'))"
  proof (rule foldM_invariant [OF fm, where I = "\<lambda>s. I (snd s)"])
    show "I (snd (y0, st))" using assms(3) by simp
  next
    fix xx t t'
    assume "I (snd t)" and
      "(case xx of (childId, kidHeight) \<Rightarrow> \<lambda>(currentY, st').
                  case initialLayout fuel nodes children childId nextX
                         (currentY + kidHeight / 2) direction st' of
                    None \<Rightarrow> None
                  | Some (h, st'') \<Rightarrow> Some (currentY + kidHeight + baseVerticalSpacing, st''))
         t = Some t'"
    then show "I (snd t')"
      using initialLayout_invariant [of I, OF step] by (auto split: prod.splits option.splits)
  qed
  then show ?thesis by simp
qed

lemma handlesOK_step:
  "handlesOK (snd t) \<Longrightarrow>
   handlesOK (snd (AList.update k p (fst t), (snd t)(k \<mapsto> sideHandles d)))"
  using sideHandles_OK [of d] by (simp add: handlesOK_upd del: fun_upd_apply)

lemma horizontalPlaced_handlesOK:
  assumes "horizontalPlaced fuel nodes edges = Some placed"
  shows "handlesOK (snd placed)"
proof -
  let ?root = "rootOf nodes edges"
  let ?st0 = "([(node_id ?root, (rootX, rootY))], [node_id ?root \<mapsto> (Left, Right)])"
  from assms obtain ids1 ids2 st1 st2 where
    l: "layoutSide fuel nodes (fst (buildTree nodes edges)) SideLeft ids1 ?st0 = Some st1" and
    r: "layoutSide fuel nodes (fst (buildTree nodes edges)) SideRight ids2 st1 = Some st2" and
    p: "snd placed = snd st2"
    by (auto simp: horizontalPlaced_def Let_def split: option.splits)
  have "handlesOK (snd ?st0)"
    by (simp add: handlesOK_def)
  from layoutSide_invariant [of "\<lambda>t. handlesOK (snd t)", OF handlesOK_step r
         layoutSide_invariant [of "\<lambda>t. handlesOK (snd t)", OF handlesOK_step l this]] p
  show ?thesis by simp
qed

lemma placeOrphans_handlesOK:
  "handlesOK (snd st) \<Longrightarrow> handlesOK (snd (placeOrphans nodes st))"
  unfolding placeOrphans_def
proof (induction nodes arbitrary: st)
  case Nil
  then show ?case by simp
next
  case (Cons n nodes)
  obtain ps hp where st: "st = (ps, hp)" by (cases st)
  show ?case
    using Cons.prems Cons.IH [of "(AList.update (node_id n) (rootX + 500, rootY) ps,
                                   hp(node_id n \<mapsto> (Left, Right)))"]
          Cons.IH [of st]
    by (simp add: st handlesOK_upd del: fun_upd_apply)
qed

lemma layoutNode_Some:
  assumes "layoutNode nodes positions hp n = Some s"
  shows "node_id s = node_id n
       \<and> (\<exists>h. hp (node_id s) = Some h \<and> targetPosition s = Some (fst h)
               \<and> sourcePosition s = Some (snd h))"
  using assms by (auto simp: layoutNode_def Let_def split: option.splits)

lemma layoutEdge_handles:
  assumes le: "layoutEdge rootNode positions ns e0 = Some e"
    and ns: "\<And>s. s \<in> set ns \<Longrightarrow> \<exists>h. hp (node_id s) = Some h
                 \<and> targetPosition s = Some (fst h) \<and> sourcePosition s = Some (snd h)"
    and ok: "handlesOK hp"
    and s: "s \<in> set ns" "node_id s = source e"
    and t: "t \<in> set ns" "node_id t = target e"
  shows "(node_id s \<noteq> node_id rootNode \<longrightarrow>
            sourceHandle e = map_option sideName (sourcePosition s))
       \<and> (node_id s = node_id rootNode \<longrightarrow>
            sourceHandle e = Some ''left'' \<or> sourceHandle e = Some ''right'')
       \<and> targetHandle e = map_option sideName (targetPosition t)"
proof -
  have st: "source e = source e0" "target e = target e0"
    using le by (auto simp: layoutEdge_def split: option.splits if_splits)
  obtain src where src: "find (\<lambda>n. node_id n = source e0) ns = Some src"
    using s st by (cases "find (\<lambda>n. node_id n = source e0) ns") (auto simp: find_None_iff)
  obtain tgt where tgt: "find (\<lambda>n. node_id n = target e0) ns = Some tgt"
    using t st by (cases "find (\<lambda>n. node_id n = target e0) ns") (auto simp: find_None_iff)
  have src_in: "src \<in> set ns" "node_id src = node_id s"
    using src s st by (auto simp: find_Some_iff)
  have tgt_in: "tgt \<in> set ns" "node_id tgt = node_id t"
    using tgt t st by (auto simp: find_Some_iff)
  from ns [OF src_in(1)] ns [OF s(1)] src_in(2)
  have sp: "sourcePosition src = sourcePosition s" by auto
  from ns [OF tgt_in(1)] ns [OF t(1)] tgt_in(2)
  have tp: "targetPosition tgt = targetPosition t" by auto
  from ns [OF s(1)] ok have s_lr: "sourcePosition s = Some Left \<or> sourcePosition s = Some Right"
    by (auto simp: handlesOK_def)
  from ns [OF t(1)] ok have t_lr: "targetPosition t = Some Left \<or> targetPosition t = Some Right"
    by (auto simp: handlesOK_def)
  show ?thesis
    using le src tgt sp tp s_lr t_lr src_in(2)
    by (auto simp: layoutEdge_def sideName_def split: option.splits if_splits)
qed


section \<open>The keys of the positions\<close>

text \<open>
  The overlap passes move nodes that have a position and give no node a new one, and
  every node that gets a position gets handle positions with it.
\<close>

lemma placedKeys_step:
  "placedKeys r t \<Longrightarrow> placedKeys r (AList.update k p (fst t), (snd t)(k \<mapsto> sideHandles d))"
  by (auto simp: placedKeys_def update_conv')

lemma sameKeys_refl: "sameKeys ps ps"
  by (simp add: sameKeys_def)

lemma sameKeys_trans: "sameKeys ps qs \<Longrightarrow> sameKeys qs rs \<Longrightarrow> sameKeys ps rs"
  by (simp add: sameKeys_def)

lemma sameKeys_update: "map_of ps k = Some v \<Longrightarrow> sameKeys ps (AList.update k w ps)"
  by (auto simp: sameKeys_def update_conv')

lemma moveKids_keys:
  "sameKeys ps (fold (\<lambda>kidId ps. case map_of ps kidId of
                         Some kidPos \<Rightarrow> AList.update kidId (f kidPos) ps
                       | None \<Rightarrow> ps) kids ps)"
proof (induction kids arbitrary: ps)
  case Nil
  show ?case by (simp add: sameKeys_refl)
next
  case (Cons k kids)
  show ?case
  proof (cases "map_of ps k")
    case None
    with Cons [of ps] show ?thesis by simp
  next
    case (Some kp)
    from sameKeys_trans [OF sameKeys_update [OF Some] Cons [of "AList.update k (f kp) ps"]]
    show ?thesis by (simp add: Some)
  qed
qed

lemma moveNodeWithDirectChildren_keys:
  "sameKeys ps (moveNodeWithDirectChildren children ps n d)"
proof (cases "map_of ps n")
  case None
  then show ?thesis by (simp add: moveNodeWithDirectChildren_def sameKeys_refl)
next
  case (Some cp)
  from sameKeys_trans [OF sameKeys_update [OF Some] moveKids_keys]
  show ?thesis by (simp add: moveNodeWithDirectChildren_def Some)
qed

lemma siblingStep_keys:
  "sameKeys (snd (snd st)) (snd (snd (siblingStep nodes children i st)))"
  by (simp add: siblingStep_def Let_def moveNodeWithDirectChildren_keys sameKeys_refl
           split: option.splits)

lemma fold_siblingStep_keys:
  "sameKeys (snd (snd st)) (snd (snd (fold (siblingStep nodes children) is st)))"
proof (induction "is" arbitrary: st)
  case Nil
  show ?case by (simp add: sameKeys_refl)
next
  case (Cons i "is")
  from sameKeys_trans [OF siblingStep_keys Cons] show ?case by simp
qed

lemma resolveSiblings_keys:
  "sameKeys (snd st) (snd (resolveSiblings nodes children g st))"
  using fold_siblingStep_keys [of "(sort_key (yOf (snd st)) (snd g), fst st, snd st)"]
  by (simp add: resolveSiblings_def Let_def sameKeys_refl)

lemma fold_resolveSiblings_keys:
  "sameKeys (snd st) (snd (fold (resolveSiblings nodes children) gs st))"
proof (induction gs arbitrary: st)
  case Nil
  show ?case by (simp add: sameKeys_refl)
next
  case (Cons g gs)
  from sameKeys_trans [OF resolveSiblings_keys Cons] show ?case by simp
qed

lemma columnStep_keys:
  "sameKeys (snd st) (snd (columnStep nodes children parent ids i st))"
  by (simp add: columnStep_def Let_def moveNodeWithDirectChildren_keys sameKeys_refl
           split: option.splits)

lemma fold_columnStep_keys:
  "sameKeys (snd st) (snd (fold (columnStep nodes children parent ids) is st))"
proof (induction "is" arbitrary: st)
  case Nil
  show ?case by (simp add: sameKeys_refl)
next
  case (Cons i "is")
  from sameKeys_trans [OF columnStep_keys Cons] show ?case by simp
qed

lemma resolveColumn_keys:
  "sameKeys (snd st) (snd (resolveColumn nodes children parent c st))"
  by (simp add: resolveColumn_def Let_def fold_columnStep_keys sameKeys_refl)

lemma fold_resolveColumn_keys:
  "sameKeys (snd st) (snd (fold (resolveColumn nodes children parent) cs st))"
proof (induction cs arbitrary: st)
  case Nil
  show ?case by (simp add: sameKeys_refl)
next
  case (Cons c cs)
  from sameKeys_trans [OF resolveColumn_keys Cons] show ?case by simp
qed

lemma resolvePass_keys:
  "sameKeys ps (snd (resolvePass nodes children parent ps))"
proof -
  let ?st1 = "fold (resolveSiblings nodes children) (siblingsByParent parent ps) (False, ps)"
  have "sameKeys (snd (False, ps)) (snd ?st1)"
    by (rule fold_resolveSiblings_keys)
  moreover have "sameKeys (snd ?st1)
      (snd (fold (resolveColumn nodes children parent) (nodesByColumn (snd ?st1)) ?st1))"
    by (rule fold_resolveColumn_keys)
  ultimately show ?thesis
    using sameKeys_trans by (simp add: resolvePass_def Let_def)
qed

lemma resolveLoop_keys:
  "sameKeys ps (resolveLoop nodes children parent iteration hasOverlap ps)"
proof (induction nodes children parent iteration hasOverlap ps rule: resolveLoop.induct)
  case (1 nodes children parent iteration hasOverlap positions)
  show ?case
  proof (cases "hasOverlap \<and> iteration < maxIterations")
    case True
    from sameKeys_trans [OF resolvePass_keys 1 [OF True refl]] True show ?thesis
      by (subst resolveLoop.simps) (simp add: Let_def)
  next
    case False
    then show ?thesis by (subst resolveLoop.simps) (auto simp: sameKeys_refl)
  qed
qed

lemma moveSubtreeHorizontally_keys:
  "moveSubtreeHorizontally fuel children n d ps = Some ps' \<Longrightarrow> sameKeys ps ps'"
proof (induction fuel arbitrary: n ps ps')
  case 0
  then show ?case by simp
next
  case (Suc fuel)
  let ?ps1 = "case map_of ps n of
                Some pos \<Rightarrow> AList.update n (fst pos + d, snd pos) ps
              | None \<Rightarrow> ps"
  have d1: "sameKeys ps ?ps1"
    by (auto simp: sameKeys_refl sameKeys_update split: option.splits)
  from Suc.prems have fm:
    "foldM (\<lambda>kidId ps. moveSubtreeHorizontally fuel children kidId d ps)
       (kidsOf children n) ?ps1 = Some ps'"
    by simp
  show ?case
    by (rule foldM_invariant [OF fm, where I = "sameKeys ps"])
       (use d1 Suc.IH sameKeys_trans in blast)+
qed

lemma pushChildAway_keys:
  "pushChildAway fuel nodes children p c iter ps = Some ps' \<Longrightarrow> sameKeys ps ps'"
proof (induction k \<equiv> "maxParentChildIterations - iter" arbitrary: iter ps)
  case 0
  then have "\<not> iter < maxParentChildIterations" by simp
  with "0.prems" show ?case by (subst (asm) pushChildAway.simps) (simp add: sameKeys_refl)
next
  case (Suc k)
  then have lt: "iter < maxParentChildIterations"
    and k: "k = maxParentChildIterations - Suc iter" by simp_all
  from Suc.prems show ?case
    by (subst (asm) pushChildAway.simps)
       (auto simp: lt Let_def sameKeys_refl split: option.splits prod.splits if_splits
             dest!: Suc.hyps(1) [OF k] moveSubtreeHorizontally_keys elim: sameKeys_trans)
qed

lemma pushEdges_keys:
  assumes "foldM (\<lambda>edge ps. pushChildAway fuel nodes children (source edge) (target edge) 0 ps)
             edges ps = Some ps'"
  shows "sameKeys ps ps'"
  by (rule foldM_invariant [OF assms, where I = "sameKeys ps"])
     (use sameKeys_refl pushChildAway_keys sameKeys_trans in blast)+

lemma centerRoot_keys:
  "centerRoot nodes r ls rs ps = Some ps' \<Longrightarrow> r \<in> dom (map_of ps) \<Longrightarrow> sameKeys ps ps'"
  by (auto simp: centerRoot_def sameKeys_refl sameKeys_update split: if_splits option.splits)

lemma horizontalPlaced_keys:
  assumes "horizontalPlaced fuel nodes edges = Some placed"
  shows "placedKeys (node_id (rootOf nodes edges)) placed"
proof -
  let ?root = "rootOf nodes edges"
  let ?st0 = "([(node_id ?root, (rootX, rootY))], [node_id ?root \<mapsto> (Left, Right)])"
  let ?ch = "fst (buildTree nodes edges)"
  from assms obtain ids1 ids2 st1 st2 ps3 ps4 where
    l: "layoutSide fuel nodes ?ch SideLeft ids1 ?st0 = Some st1" and
    r: "layoutSide fuel nodes ?ch SideRight ids2 st1 = Some st2" and
    c: "centerRoot nodes (node_id ?root) ids1 ids2 (fst st2) = Some ps3" and
    p: "foldM (\<lambda>edge ps. pushChildAway fuel nodes ?ch (source edge) (target edge) 0 ps)
          edges (resolveOverlaps nodes ?ch (snd (buildTree nodes edges)) ps3) = Some ps4" and
    pl: "placed = (ps4, snd st2)"
    by (auto simp: horizontalPlaced_def Let_def split: option.splits)
  have "placedKeys (node_id ?root) ?st0"
    by (simp add: placedKeys_def)
  from layoutSide_invariant [of "placedKeys (node_id ?root)", OF placedKeys_step r
         layoutSide_invariant [of "placedKeys (node_id ?root)", OF placedKeys_step l this]]
  have k2: "placedKeys (node_id ?root) st2" .
  then have "sameKeys (fst st2) ps3"
    using centerRoot_keys [OF c] by (simp add: placedKeys_def)
  moreover have "sameKeys ps3 ps4"
    using sameKeys_trans [OF resolveLoop_keys pushEdges_keys [OF p [unfolded resolveOverlaps_def]]] .
  ultimately show ?thesis using k2 by (simp add: pl placedKeys_def sameKeys_def)
qed

lemma placeOrphans_lookup:
  "map_of (fst (placeOrphans nodes st)) k
     = (if map_of (fst st) k = None \<and> k \<in> node_id ` set nodes
        then Some (rootX + 500, rootY) else map_of (fst st) k)
   \<and> snd (placeOrphans nodes st) k
     = (if map_of (fst st) k = None \<and> k \<in> node_id ` set nodes
        then Some (Left, Right) else snd st k)"
  unfolding placeOrphans_def
proof (induction nodes arbitrary: st)
  case Nil
  then show ?case by simp
next
  case (Cons n nodes)
  obtain ps hp where st: "st = (ps, hp)" by (cases st)
  show ?case
    using Cons.IH [of "(AList.update (node_id n) (rootX + 500, rootY) ps,
                                   hp(node_id n \<mapsto> (Left, Right)))"]
          Cons.IH [of st]
    by (auto simp: st update_conv')
qed


section \<open>The handles of the root\<close>

lemma foldM_None:
  assumes "x \<in> set xs" and "\<And>s. f x s = None"
  shows "foldM f xs s = None"
  using assms(1)
proof (induction xs arbitrary: s)
  case Nil
  then show ?case by simp
next
  case (Cons y ys)
  show ?case
  proof (cases "f y s")
    case None
    then show ?thesis by simp
  next
    case (Some t)
    with assms(2) [of s] have "x \<noteq> y" by auto
    with Cons.prems have "x \<in> set ys" by simp
    from Cons.IH [OF this] Some show ?thesis by simp
  qed
qed

text \<open>A node on a cycle of the child relation has no subtree height.\<close>

lemma calcSubtreeHeight_cyclic:
  "(x, x) \<in> (childRel children)\<^sup>+ \<Longrightarrow> calcSubtreeHeight fuel nodes children x = None"
proof (induction fuel arbitrary: x)
  case 0
  show ?case by simp
next
  case (Suc fuel)
  let ?kids = "kidsOf children x"
  from Suc.prems obtain k where xk: "(x, k) \<in> childRel children"
    and kx: "(k, x) \<in> (childRel children)\<^sup>*"
    by (auto dest: tranclD)
  then have "(k, k) \<in> (childRel children)\<^sup>+" by (auto intro: rtrancl_into_trancl1)
  then have none: "calcSubtreeHeight fuel nodes children k = None" by (rule Suc.IH)
  from xk have k: "k \<in> set ?kids" by (simp add: childRel_def)
  then obtain i where "i < length ?kids" "?kids ! i = k"
    by (auto simp: in_set_conv_nth)
  then have ki: "(k, i) \<in> set (zip ?kids [0 ..< length ?kids])"
    by (auto simp: set_zip)
  have "foldM (\<lambda>(kidId, index) totalHeight.
                 case calcSubtreeHeight fuel nodes children kidId of
                   None \<Rightarrow> None
                 | Some kidHeight \<Rightarrow>
                     Some (totalHeight + kidHeight
                           + (if index < length ?kids - 1 then baseVerticalSpacing else 0)))
          (zip ?kids [0 ..< length ?kids]) 0 = None"
    by (rule foldM_None [OF ki]) (simp add: none)
  moreover from k have "length ?kids \<noteq> 0" by auto
  ultimately show ?case by (simp add: Let_def)
qed

lemma subtreeHeights_acyclic:
  assumes "subtreeHeights fuel nodes children ids = Some hs" and "c \<in> set ids"
  shows "(c, c) \<notin> (childRel children)\<^sup>+"
proof
  assume "(c, c) \<in> (childRel children)\<^sup>+"
  then have "calcSubtreeHeight fuel nodes children c = None"
    by (rule calcSubtreeHeight_cyclic)
  then have "subtreeHeights fuel nodes children ids = None"
    unfolding subtreeHeights_def by (intro foldM_None [OF assms(2)]) simp
  with assms(1) show False by simp
qed

text \<open>The initial layout of a node writes handle positions for the node and its
  descendants only.\<close>

lemma initialLayout_handles_frame:
  "initialLayout fuel nodes children c x parentY direction st = Some (h, st') \<Longrightarrow>
   k \<noteq> c \<Longrightarrow> (c, k) \<notin> (childRel children)\<^sup>+ \<Longrightarrow> snd st' k = snd st k"
proof (induction fuel arbitrary: c x parentY st h st')
  case 0
  then show ?case by simp
next
  case (Suc fuel)
  let ?st1 = "(AList.update c (x, parentY) (fst st), (snd st)(c \<mapsto> sideHandles direction))"
  have ok1: "snd ?st1 k = snd st k"
    using Suc.prems(2) by simp
  show ?case
  proof (cases "length (kidsOf children c) = 0")
    case True
    with Suc.prems(1) have "st' = ?st1" by (simp add: Let_def)
    with ok1 show ?thesis by simp
  next
    case False
    with Suc.prems(1) obtain childHeights nextX y0 cy where
      fm: "foldM (\<lambda>(kidId, kidHeight) (currentY, st').
                    case initialLayout fuel nodes children kidId nextX
                           (currentY + kidHeight / 2) direction st' of
                      None \<Rightarrow> None
                    | Some (h, st'') \<Rightarrow> Some (currentY + kidHeight + baseVerticalSpacing, st''))
              (zip (kidsOf children c) childHeights) (y0, ?st1) = Some (cy, st')"
      by (auto simp: Let_def split: option.splits)
    let ?step = "\<lambda>(kidId, kidHeight) (currentY, st').
                    case initialLayout fuel nodes children kidId nextX
                           (currentY + kidHeight / 2) direction st' of
                      None \<Rightarrow> None
                    | Some (h, st'') \<Rightarrow> Some (currentY + kidHeight + baseVerticalSpacing, st'')"
    have "snd (snd (cy, st')) k = snd st k"
    proof (rule foldM_invariant [OF fm, where I = "\<lambda>s. snd (snd s) k = snd st k"])
      show "snd (snd (y0, ?st1)) k = snd st k" using ok1 by simp
    next
      fix xx t t'
      assume xx: "xx \<in> set (zip (kidsOf children c) childHeights)"
        and I: "snd (snd t) k = snd st k" and a: "?step xx t = Some t'"
      from xx have "fst xx \<in> set (kidsOf children c)"
        using set_zip_leftD [of "fst xx" "snd xx"] by simp
      then have ck: "(c, fst xx) \<in> childRel children" by (simp add: childRel_def)
      with Suc.prems(3) have ne: "k \<noteq> fst xx" by auto
      from ck Suc.prems(3) have nd: "(fst xx, k) \<notin> (childRel children)\<^sup>+"
        by (meson trancl_into_trancl2)
      from a obtain h' where
        "initialLayout fuel nodes children (fst xx) nextX (fst t + snd xx / 2) direction (snd t)
           = Some (h', snd t')"
        by (cases xx; cases t) (auto split: option.splits)
      from Suc.IH [OF this ne nd] I show "snd (snd t') k = snd st k" by simp
    qed
    then show ?thesis by simp
  qed
qed

lemma layoutSide_handles_frame:
  assumes ls: "layoutSide fuel nodes children direction ids st = Some st'"
    and out: "\<And>c. c \<in> set ids \<Longrightarrow> k \<noteq> c \<and> (c, k) \<notin> (childRel children)\<^sup>+"
  shows "snd st' k = snd st k"
proof (cases "length ids > 0")
  case False
  with ls show ?thesis by (simp add: layoutSide_def)
next
  case True
  with ls obtain heights nextX y0 cy where
    fm: "foldM (\<lambda>(childId, kidHeight) (currentY, st').
                  case initialLayout fuel nodes children childId nextX
                         (currentY + kidHeight / 2) direction st' of
                    None \<Rightarrow> None
                  | Some (h, st'') \<Rightarrow> Some (currentY + kidHeight + baseVerticalSpacing, st''))
            (zip ids heights) (y0, st) = Some (cy, st')"
    by (auto simp: layoutSide_def Let_def split: option.splits)
  let ?step = "\<lambda>(childId, kidHeight) (currentY, st').
                  case initialLayout fuel nodes children childId nextX
                         (currentY + kidHeight / 2) direction st' of
                    None \<Rightarrow> None
                  | Some (h, st'') \<Rightarrow> Some (currentY + kidHeight + baseVerticalSpacing, st'')"
  have "snd (snd (cy, st')) k = snd st k"
  proof (rule foldM_invariant [OF fm, where I = "\<lambda>s. snd (snd s) k = snd st k"])
    show "snd (snd (y0, st)) k = snd st k" by simp
  next
    fix xx t t'
    assume xx: "xx \<in> set (zip ids heights)"
      and I: "snd (snd t) k = snd st k" and a: "?step xx t = Some t'"
    from xx have "fst xx \<in> set ids"
      using set_zip_leftD [of "fst xx" "snd xx"] by simp
    from out [OF this] have ne: "k \<noteq> fst xx" and nd: "(fst xx, k) \<notin> (childRel children)\<^sup>+"
      by simp_all
    from a obtain h' where
      "initialLayout fuel nodes children (fst xx) nextX (fst t + snd xx / 2) direction (snd t)
         = Some (h', snd t')"
      by (cases xx; cases t) (auto split: option.splits)
    from initialLayout_handles_frame [OF this ne nd] I show "snd (snd t') k = snd st k" by simp
  qed
  then show ?thesis by simp
qed

lemma layoutSide_acyclic:
  assumes "layoutSide fuel nodes children direction ids st = Some st'" and "c \<in> set ids"
  shows "(c, c) \<notin> (childRel children)\<^sup>+"
proof -
  from assms have "length ids > 0" by auto
  with assms(1) obtain hs where "subtreeHeights fuel nodes children ids = Some hs"
    by (auto simp: layoutSide_def split: option.splits)
  then show ?thesis using assms(2) by (rule subtreeHeights_acyclic)
qed

lemma sideChildren_subset:
  "c \<in> set (sideChildren nodes edges rootNode rootChildren side) \<Longrightarrow> c \<in> set rootChildren"
  by (auto simp: sideChildren_def dest: set_zip_leftD)

text \<open>The root keeps the handle positions it gets before its children are laid out.\<close>

lemma horizontalPlaced_root_handles:
  assumes "horizontalPlaced fuel nodes edges = Some placed"
  shows "snd placed (node_id (rootOf nodes edges)) = Some (Left, Right)"
proof -
  let ?root = "rootOf nodes edges"
  let ?ch = "fst (buildTree nodes edges)"
  let ?kids = "kidsOf ?ch (node_id ?root)"
  let ?L = "sideChildren nodes edges ?root ?kids SideLeft"
  let ?R = "sideChildren nodes edges ?root ?kids SideRight"
  let ?st0 = "([(node_id ?root, (rootX, rootY))], [node_id ?root \<mapsto> (Left, Right)])"
  from assms obtain st1 st2 where
    l: "layoutSide fuel nodes ?ch SideLeft ?L ?st0 = Some st1" and
    r: "layoutSide fuel nodes ?ch SideRight ?R st1 = Some st2" and
    p: "snd placed = snd st2"
    by (auto simp: horizontalPlaced_def Let_def split: option.splits)
  have out: "node_id ?root \<noteq> c \<and> (c, node_id ?root) \<notin> (childRel ?ch)\<^sup>+"
    if kid: "c \<in> set ?kids" and acyc: "(c, c) \<notin> (childRel ?ch)\<^sup>+" for c
  proof -
    from kid have rc: "(node_id ?root, c) \<in> childRel ?ch" by (simp add: childRel_def)
    with acyc have "node_id ?root \<noteq> c" by auto
    moreover have "(c, node_id ?root) \<notin> (childRel ?ch)\<^sup>+"
    proof
      assume "(c, node_id ?root) \<in> (childRel ?ch)\<^sup>+"
      with rc have "(c, c) \<in> (childRel ?ch)\<^sup>+" by (rule trancl_into_trancl [rotated])
      with acyc show False by simp
    qed
    ultimately show ?thesis by simp
  qed
  have "snd st1 (node_id ?root) = snd ?st0 (node_id ?root)"
    by (rule layoutSide_handles_frame [OF l])
       (rule out [OF sideChildren_subset layoutSide_acyclic [OF l]])
  moreover have "snd st2 (node_id ?root) = snd st1 (node_id ?root)"
    by (rule layoutSide_handles_frame [OF r])
       (rule out [OF sideChildren_subset layoutSide_acyclic [OF r]])
  ultimately show ?thesis using p by simp
qed

lemma lrg_eval: "horizontalLayout (Suc (Suc (Suc 0))) lrg_nodes lrg_edges = Some lrg_out"
  by (simp add: lrg_nodes_def lrg_edges_def lrg_out_def placedNode_def mkNode_def mkEdge_def
        horizontal_defs)

lemma layoutNode_position:
  assumes "layoutNode nodes positions hp n = Some t"
  shows "\<exists>p. map_of positions (node_id t) = Some p
           \<and> position t = (fst p - fst (getNodeSize nodes (node_id t)) / 2,
                            snd p - snd (getNodeSize nodes (node_id t)) / 2)"
  using assms by (auto simp: layoutNode_def Let_def split: option.splits)

lemma layoutEdge_root:
  assumes le: "layoutEdge rootNode positions ns e0 = Some e"
    and s: "s \<in> set ns" "node_id s = source e" "node_id s = node_id rootNode"
    and t: "t \<in> set ns" "node_id t = target e"
  shows "\<exists>p. map_of positions (target e) = Some p
           \<and> sourceHandle e = Some (if fst p < rootX then ''left'' else ''right'')"
proof -
  have st: "source e = source e0" "target e = target e0"
    using le by (auto simp: layoutEdge_def split: option.splits if_splits)
  obtain src where src: "find (\<lambda>n. node_id n = source e0) ns = Some src"
    using s st by (cases "find (\<lambda>n. node_id n = source e0) ns") (auto simp: find_None_iff)
  obtain tgt where tgt: "find (\<lambda>n. node_id n = target e0) ns = Some tgt"
    using t st by (cases "find (\<lambda>n. node_id n = target e0) ns") (auto simp: find_None_iff)
  have "node_id src = node_id rootNode"
    using src s st by (auto simp: find_Some_iff)
  with le src tgt st show ?thesis
    by (auto simp: layoutEdge_def split: option.splits)
qed

text \<open>
  Claim C4, as stated, fails for the root. On the graph with the root \<open>r\<close>, the child \<open>a\<close>
  on the left and the child \<open>b\<close> on the right, the root's outgoing anchor is
  \<open>Right\<close>, and the edge from the root to \<open>a\<close> gets the source handle \<open>left\<close>.
\<close>

theorem horizontalLayout_handles_counterexample:
  "horizontalLayout (Suc (Suc 0)) lr_nodes lr_edges = Some lr_out
   \<and> \<not> handlesConsistent (fst lr_out) (snd lr_out)"
  by (simp add: lr_eval)
     (simp add: lr_out_def handlesConsistent_def placedNode_def mkNode_def mkEdge_def
        sideName_def)

text \<open>
  Claim C4, amended. When the horizontal layout returns, for every output edge and all
  output nodes \<open>s\<close> and \<open>t\<close> with the ids of its source and of its target: the target
  handle names the incoming anchor of \<open>t\<close>; when \<open>s\<close> is not the root, the source handle
  names the outgoing anchor of \<open>s\<close>; and when \<open>s\<close> is the root, its outgoing anchor is
  \<open>Right\<close> and the source handle is \<open>left\<close> when the centre of \<open>t\<close> (its position plus
  half its size) lies left of \<open>x = 800\<close>, and \<open>right\<close> otherwise.
\<close>

theorem horizontalLayout_handles:
  assumes "horizontalLayout fuel nodes edges = Some (ns, es)"
  shows "\<forall>e \<in> set es. \<forall>s \<in> set ns. \<forall>t \<in> set ns.
           node_id s = source e \<and> node_id t = target e \<longrightarrow>
           (node_id s \<noteq> node_id (rootOf nodes edges) \<longrightarrow>
              sourceHandle e = map_option sideName (sourcePosition s))
           \<and> (node_id s = node_id (rootOf nodes edges) \<longrightarrow>
              sourcePosition s = Some Right
              \<and> sourceHandle e
                  = Some (if fst (position t) + fst (getNodeSize nodes (node_id t)) / 2 < rootX
                          then ''left'' else ''right''))
           \<and> targetHandle e = map_option sideName (targetPosition t)"
proof (cases "nodes = []")
  case True
  with assms have "ns = []" by (simp add: horizontalLayout_def)
  then show ?thesis by simp
next
  case False
  with assms obtain placed where
    pl: "horizontalPlaced fuel nodes edges = Some placed" and
    nn: "those (map (layoutNode nodes (fst (placeOrphans nodes placed))
                       (snd (placeOrphans nodes placed))) nodes) = Some ns" and
    ee: "those (map (layoutEdge (rootOf nodes edges) (fst (placeOrphans nodes placed)) ns)
                  edges) = Some es"
    by (auto simp: horizontalLayout_def Let_def split: option.splits)
  let ?root = "rootOf nodes edges"
  let ?ps = "fst (placeOrphans nodes placed)"
  let ?hp = "snd (placeOrphans nodes placed)"
  have ok: "handlesOK ?hp"
    by (rule placeOrphans_handlesOK [OF horizontalPlaced_handlesOK [OF pl]])
  have ns: "\<And>s. s \<in> set ns \<Longrightarrow> \<exists>h. ?hp (node_id s) = Some h
                 \<and> targetPosition s = Some (fst h) \<and> sourcePosition s = Some (snd h)"
    using those_map_set [OF nn] layoutNode_Some by blast
  have pos: "\<And>t. t \<in> set ns \<Longrightarrow> \<exists>p. map_of ?ps (node_id t) = Some p
                 \<and> position t = (fst p - fst (getNodeSize nodes (node_id t)) / 2,
                                  snd p - snd (getNodeSize nodes (node_id t)) / 2)"
    using those_map_set [OF nn] layoutNode_position by blast
  have rh: "?hp (node_id ?root) = Some (Left, Right)"
    using placeOrphans_lookup [of nodes placed "node_id ?root"]
      horizontalPlaced_root_handles [OF pl] by simp
  show ?thesis
  proof (intro ballI impI)
    fix e s t
    assume e: "e \<in> set es" and s: "s \<in> set ns" and t: "t \<in> set ns"
      and ids: "node_id s = source e \<and> node_id t = target e"
    from those_map_set [OF ee e] obtain e0 where
      le: "layoutEdge ?root ?ps ns e0 = Some e"
      by blast
    have root: "sourcePosition s = Some Right
              \<and> sourceHandle e
                  = Some (if fst (position t) + fst (getNodeSize nodes (node_id t)) / 2 < rootX
                          then ''left'' else ''right'')"
      if r: "node_id s = node_id ?root"
    proof -
      from ns [OF s] rh r have "sourcePosition s = Some Right" by auto
      moreover from layoutEdge_root [OF le s _ r t] ids obtain p where
        p: "map_of ?ps (target e) = Some p"
        "sourceHandle e = Some (if fst p < rootX then ''left'' else ''right'')"
        by auto
      from pos [OF t] ids p(1)
      have "fst p = fst (position t) + fst (getNodeSize nodes (node_id t)) / 2"
        by auto
      with p(2) have "sourceHandle e
                  = Some (if fst (position t) + fst (getNodeSize nodes (node_id t)) / 2 < rootX
                          then ''left'' else ''right'')" by simp
      ultimately show ?thesis by simp
    qed
    from layoutEdge_handles [OF le ns ok s _ t] ids root
    show "(node_id s \<noteq> node_id ?root \<longrightarrow>
              sourceHandle e = map_option sideName (sourcePosition s))
           \<and> (node_id s = node_id ?root \<longrightarrow>
              sourcePosition s = Some Right
              \<and> sourceHandle e
                  = Some (if fst (position t) + fst (getNodeSize nodes (node_id t)) / 2 < rootX
                          then ''left'' else ''right''))
           \<and> targetHandle e = map_option sideName (targetPosition t)"
      by blast
  qed
qed

theorem horizontalLayout_handles_witness:
  "horizontalLayout (Suc (Suc (Suc 0))) lrg_nodes lrg_edges = Some (fst lrg_out, snd lrg_out)
   \<and> node_id (rootOf lrg_nodes lrg_edges) = ''r''
   \<and> sourcePosition (fst lrg_out ! 0) = Some Right
   \<and> fst (position (fst lrg_out ! 1)) + fst (getNodeSize lrg_nodes ''a'') / 2 = 450
   \<and> sourceHandle (snd lrg_out ! 0) = Some ''left''
   \<and> fst (position (fst lrg_out ! 2)) + fst (getNodeSize lrg_nodes ''b'') / 2 = 1150
   \<and> sourceHandle (snd lrg_out ! 1) = Some ''right''
   \<and> sourceHandle (snd lrg_out ! 2) = map_option sideName (sourcePosition (fst lrg_out ! 1))
   \<and> targetHandle (snd lrg_out ! 0) = map_option sideName (targetPosition (fst lrg_out ! 1))
   \<and> targetHandle (snd lrg_out ! 1) = map_option sideName (targetPosition (fst lrg_out ! 2))
   \<and> targetHandle (snd lrg_out ! 2) = map_option sideName (targetPosition (fst lrg_out ! 3))"
  using horizontalLayout_handles
          [of "Suc (Suc (Suc 0))" lrg_nodes lrg_edges "fst lrg_out" "snd lrg_out"] lrg_eval
  by (simp add: lrg_out_def lrg_nodes_def placedNode_def mkNode_def mkEdge_def sideName_def
        rootOf_def lrg_edges_def getNodeSize_def nodeMap_def measured_width_def
        measured_height_def nodeWidth_def nodeHeight_def rootX_def)

section \<open>Orphans\<close>

lemma those_map_Some:
  "(\<And>x. x \<in> set xs \<Longrightarrow> f x \<noteq> None) \<Longrightarrow> \<exists>ys. those (map f xs) = Some ys"
proof (induction xs)
  case Nil
  show ?case by simp
next
  case (Cons x xs)
  then obtain ys where "those (map f xs) = Some ys" by auto
  moreover from Cons.prems [of x] obtain y where "f x = Some y" by auto
  ultimately show ?case by simp
qed

lemma layoutNode_defined:
  assumes "map_of positions (node_id n) \<noteq> None" and "hp (node_id n) \<noteq> None"
  shows "layoutNode nodes positions hp n \<noteq> None"
  using assms by (auto simp: layoutNode_def Let_def split: option.splits)

lemma layoutEdge_defined:
  assumes "\<And>t. t \<in> set ns \<Longrightarrow> map_of positions (node_id t) \<noteq> None"
  shows "layoutEdge rootNode positions ns e \<noteq> None"
proof (cases "find (\<lambda>n. node_id n = target e) ns")
  case None
  then show ?thesis by (simp add: layoutEdge_def split: option.splits)
next
  case (Some tgt)
  then have "tgt \<in> set ns" "node_id tgt = target e"
    by (auto simp: find_Some_iff)
  with assms [of tgt] have "map_of positions (target e) \<noteq> None" by simp
  then show ?thesis
    by (auto simp: layoutEdge_def Some split: option.splits)
qed

lemma horizontalLayout_orphans:
  assumes pl: "horizontalPlaced fuel nodes edges = Some placed" and ne: "nodes \<noteq> []"
  shows "\<exists>ns es. horizontalLayout fuel nodes edges = Some (ns, es)
           \<and> list_all2 (fallbackPlaced nodes (fst placed)) nodes ns"
proof -
  let ?st = "placeOrphans nodes placed"
  from horizontalPlaced_keys [OF pl]
  have keys: "dom (map_of (fst placed)) \<subseteq> dom (snd placed)"
    by (simp add: placedKeys_def)
  have pos: "map_of (fst ?st) (node_id n) \<noteq> None" if "n \<in> set nodes" for n
    using that placeOrphans_lookup [of nodes placed "node_id n"] by auto
  have hps: "snd ?st (node_id n) \<noteq> None" if "n \<in> set nodes" for n
    using that placeOrphans_lookup [of nodes placed "node_id n"] keys by auto
  from those_map_Some [of nodes "layoutNode nodes (fst ?st) (snd ?st)"]
  obtain ns where ns: "those (map (layoutNode nodes (fst ?st) (snd ?st)) nodes) = Some ns"
    using layoutNode_defined pos hps by blast
  have "map_of (fst ?st) (node_id t) \<noteq> None" if "t \<in> set ns" for t
  proof -
    from those_map_set [OF ns that] obtain n where "n \<in> set nodes"
      "layoutNode nodes (fst ?st) (snd ?st) n = Some t" by blast
    with layoutNode_Some [of nodes "fst ?st" "snd ?st" n t] pos [of n] show ?thesis by simp
  qed
  from those_map_Some [of edges "layoutEdge (rootOf nodes edges) (fst ?st) ns"]
       layoutEdge_defined [of ns "fst ?st", OF this]
  obtain es where es: "those (map (layoutEdge (rootOf nodes edges) (fst ?st) ns) edges) = Some es"
    by blast
  have ret: "horizontalLayout fuel nodes edges = Some (ns, es)"
    using pl ne ns es by (simp add: horizontalLayout_def Let_def)
  have "list_all2 (fallbackPlaced nodes (fst placed)) nodes ns"
  proof (rule those_map_all2 [OF ns])
    fix n out
    assume n: "n \<in> set nodes" and out: "layoutNode nodes (fst ?st) (snd ?st) n = Some out"
    show "fallbackPlaced nodes (fst placed) n out"
      using out n placeOrphans_lookup [of nodes placed "node_id n"]
      by (auto simp: fallbackPlaced_def layoutNode_def Let_def rootX_def rootY_def
               split: option.splits)
  qed
  with ret show ?thesis by blast
qed

lemma radialOrphans_other:
  "k \<notin> node_id ` set nodes \<Longrightarrow>
   map_of (fst (snd (radialOrphans nodes visited st))) k = map_of (fst (snd st)) k
   \<and> snd (snd (radialOrphans nodes visited st)) k = snd (snd st) k"
  unfolding radialOrphans_def
proof (induction nodes arbitrary: st)
  case Nil
  show ?case by simp
next
  case (Cons n nodes)
  obtain co ps hp where st: "st = (co, ps, hp)" by (cases st)
  from Cons.prems have k: "k \<noteq> node_id n" "k \<notin> node_id ` set nodes" by auto
  show ?case
    using Cons.IH [OF k(2), of "(co + 400, AList.update (node_id n) (co + 600, 600) ps,
                                   hp(node_id n \<mapsto> (Left, Right)))"]
          Cons.IH [OF k(2), of st] k(1)
    by (auto simp: st update_conv')
qed

lemma radialOrphans_position:
  "distinct (map node_id nodes) \<Longrightarrow> i < length nodes \<Longrightarrow> node_id (nodes ! i) \<notin> visited \<Longrightarrow>
   map_of (fst (snd (radialOrphans nodes visited (co, ps, hp)))) (node_id (nodes ! i))
     = Some (co + 400 * real (orphansBefore nodes visited i) + 600, 600)
   \<and> snd (snd (radialOrphans nodes visited (co, ps, hp))) (node_id (nodes ! i))
     = Some (Left, Right)"
proof (induction nodes arbitrary: i co ps hp)
  case Nil
  then show ?case by simp
next
  case (Cons n nodes)
  let ?st1 = "(co + 400, AList.update (node_id n) (co + 600, 600) ps,
               hp(node_id n \<mapsto> (Left, Right)))"
  show ?case
  proof (cases i)
    case 0
    with Cons.prems have nv: "node_id n \<notin> visited" and other: "node_id n \<notin> node_id ` set nodes"
      by auto
    have "radialOrphans (n # nodes) visited (co, ps, hp) = radialOrphans nodes visited ?st1"
      using nv by (simp add: radialOrphans_def)
    with radialOrphans_other [OF other, of visited ?st1] 0 show ?thesis
      by (simp add: orphansBefore_def update_conv')
  next
    case (Suc j)
    with Cons.prems have d: "distinct (map node_id nodes)" and j: "j < length nodes"
      and v: "node_id (nodes ! j) \<notin> visited" by auto
    show ?thesis
    proof (cases "node_id n \<in> visited")
      case True
      then have "radialOrphans (n # nodes) visited (co, ps, hp)
                   = radialOrphans nodes visited (co, ps, hp)"
        by (simp add: radialOrphans_def)
      with Cons.IH [OF d j v, of co ps hp] True Suc show ?thesis
        by (simp add: orphansBefore_def)
    next
      case False
      then have "radialOrphans (n # nodes) visited (co, ps, hp)
                   = radialOrphans nodes visited ?st1"
        by (simp add: radialOrphans_def)
      with Cons.IH [OF d j v, of "co + 400" "AList.update (node_id n) (co + 600, 600) ps"
                      "hp(node_id n \<mapsto> (Left, Right))"] False Suc
      show ?thesis
        by (simp add: orphansBefore_def algebra_simps del: fun_upd_apply)
    qed
  qed
qed

lemma radialRoots_offset:
  "foldM (\<lambda>rt (currentOffset, st).
            case layoutTree fuel nodes children (node_id rt) (currentOffset + 600) 600 st of
              None \<Rightarrow> None
            | Some st' \<Rightarrow> Some (currentOffset + 1200, st'))
         roots (c0, st0) = Some (c, st) \<Longrightarrow>
   c = c0 + 1200 * real (length roots)"
proof (induction roots arbitrary: c0 st0)
  case Nil
  then show ?case by simp
next
  case (Cons r roots)
  from Cons.prems obtain st1 where
    "foldM (\<lambda>rt (currentOffset, st).
            case layoutTree fuel nodes children (node_id rt) (currentOffset + 600) 600 st of
              None \<Rightarrow> None
            | Some st' \<Rightarrow> Some (currentOffset + 1200, st'))
         roots (c0 + 1200, st1) = Some (c, st)"
    by (auto split: option.splits)
  from Cons.IH [OF this] show ?case by (simp add: algebra_simps)
qed

lemma o_eval: "horizontalLayout (Suc (Suc 0)) o_nodes o_edges = Some o_out"
  by (simp add: o_nodes_def o_edges_def o_out_def placedNode_def mkNode_def mkEdge_def
        horizontal_defs)

lemma o_placed:
  "map_option fst (horizontalPlaced (Suc (Suc 0)) o_nodes o_edges)
     = Some [(''r'', (800, 500)), (''a'', (1150, 500))]"
  by (simp add: o_nodes_def o_edges_def mkNode_def mkEdge_def horizontal_defs)

lemmas radial_defs =
  radialLayout_def radialPlaced_def radialOrphans_def radialNode_def layoutTree_def
  findRootNodes_def buildTree_def buildTree_edge_def kidsOf_def nudgeEdge_def
  measured_width_def measured_height_def nodeWidth_def nodeHeight_def Let_def

lemma pq_placed:
  "map_option (\<lambda>(co, visited, ps, hp). (co, visited, ps))
     (radialPlaced (Suc 0) pq_nodes pq_edges) = Some (1200, {''r''}, [(''r'', (600, 600))])"
  by (simp add: pq_nodes_def pq_edges_def mkNode_def mkEdge_def radial_defs)

lemma pq_eval: "radialLayout (Suc 0) pq_nodes pq_edges = Some pq_out"
  by (simp add: pq_nodes_def pq_edges_def pq_out_def placedNode_def mkNode_def mkEdge_def
        radial_defs)

text \<open>
  Claim C7, as stated, fails. In the horizontal layout of the root \<open>r\<close> with the child
  \<open>a\<close> and the unconnected node \<open>o\<close>, the traversal places \<open>r\<close> and \<open>a\<close>; the
  orphan \<open>o\<close> gets the box from \<open>(1175, 460)\<close> to \<open>(1425, 540)\<close>, which is not outside
  the bounding box of \<open>r\<close> and \<open>a\<close> (it even overlaps the box of \<open>a\<close>).
\<close>

theorem orphan_counterexample:
  "map_option fst (horizontalPlaced (Suc (Suc 0)) o_nodes o_edges)
     = Some [(''r'', (800, 500)), (''a'', (1150, 500))]
   \<and> horizontalLayout (Suc (Suc 0)) o_nodes o_edges = Some o_out
   \<and> \<not> outsideOf (boxOf o_nodes (fst o_out ! 2))
          (boundingBox [boxOf o_nodes (fst o_out ! 0), boxOf o_nodes (fst o_out ! 1)])"
  by (simp add: o_eval o_placed)
     (simp add: o_out_def o_nodes_def outsideOf_def boxOf_def boundingBox_def placedNode_def
        mkNode_def getNodeSize_def nodeMap_def measured_width_def measured_height_def
        nodeWidth_def nodeHeight_def)

text \<open>
  Claim C7, amended. Every node that the traversal from the roots did not reach receives
  a fixed fallback position, with the incoming anchor \<open>Left\<close> and the outgoing anchor
  \<open>Right\<close>. When the traversal of the horizontal layout returns, the layout returns, and
  every node without a position gets the centre \<open>(1300, 500)\<close>. When the traversal of
  the radial layout returns on nodes with unique ids, the layout returns, and the
  unvisited nodes get, in input order, the centres \<open>(currentOffset + 600 + 400 k, 600)\<close>,
  \<open>k = 0, 1, ...\<close>, with \<open>currentOffset\<close> 1200 times the number of roots. Nothing is
  said about the bounding box of the placed nodes.
\<close>

theorem orphan_fallback:
  "(\<forall>placed. nodes \<noteq> [] \<and> horizontalPlaced fuel nodes edges = Some placed \<longrightarrow>
      (\<exists>ns es. horizontalLayout fuel nodes edges = Some (ns, es)
         \<and> list_all2 (fallbackPlaced nodes (fst placed)) nodes ns))
   \<and> (\<forall>co visited ps hp.
        nodes \<noteq> [] \<and> distinct (map node_id nodes)
        \<and> radialPlaced fuel nodes edges = Some (co, visited, ps, hp) \<longrightarrow>
        co = 1200 * real (length (findRootNodes nodes edges))
        \<and> (\<exists>ns. radialLayout fuel nodes edges = Some ns \<and> length ns = length nodes
              \<and> (\<forall>i < length nodes. radialFallback nodes visited co i (ns ! i))))"
proof (intro conjI allI impI)
  fix placed
  assume "nodes \<noteq> [] \<and> horizontalPlaced fuel nodes edges = Some placed"
  then show "\<exists>ns es. horizontalLayout fuel nodes edges = Some (ns, es)
         \<and> list_all2 (fallbackPlaced nodes (fst placed)) nodes ns"
    using horizontalLayout_orphans by blast
next
  fix co visited ps hp
  assume a: "nodes \<noteq> [] \<and> distinct (map node_id nodes)
        \<and> radialPlaced fuel nodes edges = Some (co, visited, ps, hp)"
  then obtain ps0 where
    "foldM (\<lambda>rt (currentOffset, st).
            case layoutTree fuel nodes (fst (buildTree nodes edges)) (node_id rt)
                   (currentOffset + 600) 600 st of
              None \<Rightarrow> None
            | Some st' \<Rightarrow> Some (currentOffset + 1200, st'))
         (findRootNodes nodes edges) (0, {}, [], Map.empty) = Some (co, visited, ps0, hp)"
    by (auto simp: radialPlaced_def Let_def split: option.splits)
  from radialRoots_offset [OF this]
  show "co = 1200 * real (length (findRootNodes nodes edges))" by simp
next
  fix co visited ps hp
  assume a: "nodes \<noteq> [] \<and> distinct (map node_id nodes)
        \<and> radialPlaced fuel nodes edges = Some (co, visited, ps, hp)"
  let ?st = "radialOrphans nodes visited (co, ps, hp)"
  let ?ns = "map (radialNode (fst (snd ?st)) (snd (snd ?st))) nodes"
  have ret: "radialLayout fuel nodes edges = Some ?ns"
    using a by (simp add: radialLayout_def Let_def)
  have "radialFallback nodes visited co i (?ns ! i)" if "i < length nodes" for i
    using that a radialOrphans_position [of nodes i visited co ps hp]
    by (auto simp: radialFallback_def radialNode_def Let_def)
  with ret show "\<exists>ns. radialLayout fuel nodes edges = Some ns \<and> length ns = length nodes
              \<and> (\<forall>i < length nodes. radialFallback nodes visited co i (ns ! i))"
    by auto
qed

theorem orphan_fallback_witness:
  "o_nodes \<noteq> []
   \<and> map_option fst (horizontalPlaced (Suc (Suc 0)) o_nodes o_edges)
       = Some [(''r'', (800, 500)), (''a'', (1150, 500))]
   \<and> horizontalLayout (Suc (Suc 0)) o_nodes o_edges = Some o_out
   \<and> position (fst o_out ! 2) = (1300 - 250 / 2, 500 - 80 / 2)
   \<and> distinct (map node_id pq_nodes)
   \<and> map_option (\<lambda>(co, visited, ps, hp). (co, visited, ps))
       (radialPlaced (Suc 0) pq_nodes pq_edges) = Some (1200, {''r''}, [(''r'', (600, 600))])
   \<and> radialLayout (Suc 0) pq_nodes pq_edges = Some pq_out
   \<and> position (pq_out ! 1) = (1200 + 400 * 0 + 600 - 250 / 2, 600 - 80 / 2)
   \<and> position (pq_out ! 2) = (1200 + 400 * 1 + 600 - 250 / 2, 600 - 80 / 2)"
  using orphan_fallback [of o_nodes "Suc (Suc 0)" o_edges]
        orphan_fallback [of pq_nodes "Suc 0" pq_edges]
  by (simp add: o_eval o_placed pq_eval pq_placed)
     (simp add: o_nodes_def pq_nodes_def o_out_def pq_out_def placedNode_def mkNode_def)


section \<open>What a layout leaves unchanged\<close>

lemma layoutNode_frame: "layoutNode nodes positions hp n = Some out \<Longrightarrow> sameButLayout n out"
  by (auto simp: layoutNode_def sameButLayout_def Let_def split: option.splits)

lemma radialNode_frame: "sameButLayout n (radialNode positions hp n)"
  by (simp add: radialNode_def sameButLayout_def Let_def)

lemma rankNode_frame: "rankNode rootNode topSide dpos n = Some out \<Longrightarrow> sameButLayout n out"
  by (auto simp: rankNode_def sameButLayout_def Let_def split: option.splits if_splits)

lemma rankRoot_None: "rankRoot nodes edges = None \<Longrightarrow> nodes = []"
  by (auto simp: rankRoot_def Let_def split: if_splits list.splits)

lemma horizontalLayout_frame:
  assumes "horizontalLayout fuel nodes edges = Some (ns, es)"
  shows "list_all2 sameButLayout nodes ns"
proof (cases "nodes = []")
  case True
  with assms show ?thesis by (simp add: horizontalLayout_def)
next
  case False
  with assms obtain st where
    "those (map (layoutNode nodes (fst st) (snd st)) nodes) = Some ns"
    by (auto simp: horizontalLayout_def Let_def split: option.splits)
  then show ?thesis
    by (rule those_map_all2) (rule layoutNode_frame)
qed

lemma radialLayout_frame:
  assumes "radialLayout fuel nodes edges = Some ns"
  shows "list_all2 sameButLayout nodes ns"
proof (cases "nodes = []")
  case True
  with assms show ?thesis by (simp add: radialLayout_def)
next
  case False
  with assms obtain ps hp where "ns = map (radialNode ps hp) nodes"
    by (auto simp: radialLayout_def Let_def split: option.splits)
  then show ?thesis
    by (simp add: list_all2_map2 list_all2_same radialNode_frame)
qed

lemma rankLayout_frame:
  assumes "rankLayout dagre nodes edges = Some (ns, es)"
  shows "list_all2 sameButLayout nodes ns"
proof (cases "rankRoot nodes edges")
  case None
  with assms rankRoot_None [OF None] show ?thesis by (simp add: rankLayout_def)
next
  case (Some rootNode)
  with assms obtain topSide dpos where
    "those (map (rankNode rootNode topSide dpos) nodes) = Some ns"
    by (auto simp: rankLayout_def Let_def split: option.splits)
  then show ?thesis
    by (rule those_map_all2) (rule rankNode_frame)
qed

text \<open>
  Claim C10. Whenever a layout call returns, in any of the three directions, the output
  lists one node for every input node, in input order, and each output node differs from
  its input node only in the position, the outgoing anchor and the incoming anchor: the
  id, the type, the data (label, stored width and height, level), the selected state and
  the measured size are returned unchanged.
\<close>

theorem getLayoutedElements_frame:
  assumes "getLayoutedElements fuel dagre nodes edges direction = Some (ns, es)"
  shows "list_all2 sameButLayout nodes ns"
  using assms horizontalLayout_frame radialLayout_frame rankLayout_frame
  by (auto simp: getLayoutedElements_def split: if_splits option.splits)

theorem getLayoutedElements_frame_witness:
  "getLayoutedElements (Suc (Suc 0)) zeroDagre lr_nodes lr_edges LR
     = Some (fst lr_out, snd lr_out)
   \<and> list_all2 sameButLayout lr_nodes (fst lr_out)"
  using getLayoutedElements_frame [of "Suc (Suc 0)" zeroDagre lr_nodes lr_edges LR "fst lr_out" "snd lr_out"]
  by (simp add: getLayoutedElements_def lr_eval)


section \<open>A cycle without a root\<close>


lemma loop_kids:
  "kidsOf (fst (buildTree loop_nodes loop_edges)) ''a'' = [''b'']"
  "kidsOf (fst (buildTree loop_nodes loop_edges)) ''b'' = [''a'']"
  by (simp_all add: loop_nodes_def loop_edges_def buildTree_def buildTree_edge_def kidsOf_def
        mkNode_def mkEdge_def)

lemma loop_root: "rootOf loop_nodes loop_edges = mkNode ''a''"
  by (simp add: rootOf_def loop_nodes_def loop_edges_def mkNode_def mkEdge_def)

lemma loop_roots: "findRootNodes loop_nodes loop_edges = [mkNode ''a'']"
  by (simp add: findRootNodes_def loop_nodes_def loop_edges_def mkNode_def mkEdge_def)

lemma loop_sides:
  "sideChildren loop_nodes loop_edges (mkNode ''a'') [''b''] SideRight = [''b'']"
  "sideChildren loop_nodes loop_edges (mkNode ''a'') [''b''] SideLeft = []"
  by (simp_all add: sideChildren_def rootChildSide_def loop_nodes_def loop_edges_def
        mkNode_def mkEdge_def measured_width_def)

lemma calcSubtreeHeight_loop:
  "calcSubtreeHeight fuel loop_nodes (fst (buildTree loop_nodes loop_edges)) ''a'' = None
   \<and> calcSubtreeHeight fuel loop_nodes (fst (buildTree loop_nodes loop_edges)) ''b'' = None"
  by (induction fuel) (simp_all add: loop_kids)

lemma positionChildren_loop:
  "positionChildren fuel loop_nodes (fst (buildTree loop_nodes loop_edges)) levels ''a'' s e st
     = None
   \<and> positionChildren fuel loop_nodes (fst (buildTree loop_nodes loop_edges)) levels ''b'' s e st
     = None"
  by (induction fuel arbitrary: s e st) (simp_all add: loop_kids Let_def split: option.splits)

lemma horizontalLayout_loop: "horizontalLayout fuel loop_nodes loop_edges = None"
proof -
  have "horizontalPlaced fuel loop_nodes loop_edges = None"
    by (simp add: horizontalPlaced_def Let_def loop_root mkNode_id loop_kids loop_sides
        layoutSide_def subtreeHeights_def calcSubtreeHeight_loop)
  then show ?thesis by (simp add: horizontalLayout_def loop_nodes_def)
qed

lemma radialLayout_loop: "radialLayout fuel loop_nodes loop_edges = None"
proof -
  have "radialPlaced fuel loop_nodes loop_edges = None"
    by (simp add: radialPlaced_def Let_def loop_roots layoutTree_def positionChildren_loop
          mkNode_id split: option.splits)
  then show ?thesis by (simp add: radialLayout_def loop_nodes_def)
qed

text \<open>
  Claim C1 fails on the code. For the two nodes \<open>a\<close> and \<open>b\<close> with the edges
  \<open>a \<rightarrow> b\<close> and \<open>b \<rightarrow> a\<close> (a cycle, and no node without an incoming edge) neither the
  radial nor the horizontal layout returns any output node, however deep the recursion
  may go: \<^verbatim>\<open>positionChildren\<close> and \<^verbatim>\<open>calcSubtreeHeight\<close> follow the cycle without end.
\<close>

theorem getLayoutedElements_loop_never_returns:
  "\<forall>fuel dagre.
     getLayoutedElements fuel dagre [mkNode ''a'', mkNode ''b'']
       [mkEdge ''a'' ''b'', mkEdge ''b'' ''a''] Radial = None
     \<and> getLayoutedElements fuel dagre [mkNode ''a'', mkNode ''b'']
       [mkEdge ''a'' ''b'', mkEdge ''b'' ''a''] LR = None"
  using horizontalLayout_loop radialLayout_loop
  by (simp add: getLayoutedElements_def loop_nodes_def loop_edges_def)


section \<open>The depth of recursion does not change a result\<close>

text \<open>
  A call that returns with some bound on the depth of recursion returns the same value with
  any greater bound: the bound is not observable in a result.
\<close>

lemma foldM_mono:
  assumes "foldM f xs s = Some r"
    and "\<And>x t t'. x \<in> set xs \<Longrightarrow> f x t = Some t' \<Longrightarrow> g x t = Some t'"
  shows "foldM g xs s = Some r"
  using assms
proof (induction xs arbitrary: s)
  case Nil
  then show ?case by simp
next
  case (Cons x xs)
  from Cons.prems(1) obtain t where t: "f x s = Some t" and rest: "foldM f xs t = Some r"
    by (auto split: option.splits)
  from Cons.prems(2) [of x s t] t have "g x s = Some t" by simp
  moreover from Cons.IH [OF rest] Cons.prems(2) have "foldM g xs t = Some r" by simp
  ultimately show ?case by simp
qed

lemma calcSubtreeHeight_Suc:
  "calcSubtreeHeight fuel nodes children nodeId = Some h \<Longrightarrow>
   calcSubtreeHeight (Suc fuel) nodes children nodeId = Some h"
proof (induction fuel arbitrary: nodeId h)
  case 0
  then show ?case by simp
next
  case (Suc fuel)
  let ?kids = "kidsOf children nodeId"
  let ?step = "\<lambda>f. (\<lambda>(kidId, index) totalHeight.
                             case calcSubtreeHeight f nodes children kidId of
                               None \<Rightarrow> None
                             | Some kidHeight \<Rightarrow>
                                 Some (totalHeight + kidHeight
                                       + (if index < length ?kids - 1 then baseVerticalSpacing
                                          else 0)))"
  show ?case
  proof (cases "length ?kids = 0")
    case True
    with Suc.prems show ?thesis by (simp add: Let_def)
  next
    case False
    with Suc.prems obtain total where
      fm: "foldM (?step fuel) (zip ?kids [0 ..< length ?kids]) 0 = Some total"
      and h: "h = max (snd (getNodeSize nodes nodeId)) total"
      by (auto simp: Let_def split: option.splits)
    have "foldM (?step (Suc fuel)) (zip ?kids [0 ..< length ?kids]) 0 = Some total"
      by (rule foldM_mono [OF fm])
         (auto split: option.splits dest!: Suc.IH simp del: calcSubtreeHeight.simps)
    with False h show ?thesis
      by (simp add: Let_def)
  qed
qed

lemma subtreeHeights_Suc:
  assumes "subtreeHeights fuel nodes children ids = Some hs"
  shows "subtreeHeights (Suc fuel) nodes children ids = Some hs"
  unfolding subtreeHeights_def
  by (rule foldM_mono [OF assms [unfolded subtreeHeights_def]])
     (auto split: option.splits dest!: calcSubtreeHeight_Suc [of fuel] simp del: calcSubtreeHeight.simps)

lemma initialLayout_Suc:
  "initialLayout fuel nodes children nodeId x parentY direction st = Some r \<Longrightarrow>
   initialLayout (Suc fuel) nodes children nodeId x parentY direction st = Some r"
proof (induction fuel arbitrary: nodeId x parentY direction st r)
  case 0
  then show ?case by simp
next
  case (Suc fuel)
  let ?kids = "kidsOf children nodeId"
  let ?st1 = "(AList.update nodeId (x, parentY) (fst st),
                 (snd st)(nodeId \<mapsto> sideHandles direction))"
  let ?nextX = "x + (if direction = SideLeft then - horizontalSpacing else horizontalSpacing)"
  let ?total = "\<lambda>childHeights. foldl (\<lambda>sum h. sum + h) 0 childHeights
                          + (if length ?kids > 1
                             then (real (length ?kids) - 1) * baseVerticalSpacing else 0)"
  let ?step = "\<lambda>f. (\<lambda>(kidId, kidHeight) (currentY, st').
                          case initialLayout f nodes children kidId ?nextX
                                 (currentY + kidHeight / 2) direction st' of
                            None \<Rightarrow> None
                          | Some (h, st'') \<Rightarrow>
                              Some (currentY + kidHeight + baseVerticalSpacing, st''))"
  show ?case
  proof (cases "length ?kids = 0")
    case True
    with Suc.prems show ?thesis by (simp add: Let_def)
  next
    case False
    with Suc.prems obtain childHeights res where
      hs: "subtreeHeights fuel nodes children ?kids = Some childHeights"
      and fm: "foldM (?step fuel) (zip ?kids childHeights)
                 (parentY - ?total childHeights / 2, ?st1) = Some res"
      and r: "r = (max (snd (getNodeSize nodes nodeId)) (?total childHeights), snd res)"
      by (auto simp: Let_def split: option.splits)
    have fm': "foldM (?step (Suc fuel)) (zip ?kids childHeights)
                 (parentY - ?total childHeights / 2, ?st1) = Some res"
      by (rule foldM_mono [OF fm])
         (auto split: option.splits dest!: Suc.IH simp del: initialLayout.simps)
    note hs' = subtreeHeights_Suc [OF hs]
    show ?thesis
      apply (subst initialLayout.simps(2))
      using False hs' fm' r
      apply (simp only: Let_def if_False option.case prod.case fst_conv snd_conv)
      apply (cases res)
      apply (simp only: prod.case snd_conv)
      done
  qed
qed


lemma layoutSide_Suc:
  assumes "layoutSide fuel nodes children direction ids st = Some r"
  shows "layoutSide (Suc fuel) nodes children direction ids st = Some r"
proof (cases "length ids > 0")
  case False
  with assms show ?thesis by (simp add: layoutSide_def)
next
  case True
  let ?nextX = "if direction = SideLeft then rootX - horizontalSpacing
                else rootX + horizontalSpacing"
  let ?total = "\<lambda>heights. foldl (\<lambda>sum h. sum + h) 0 heights
                       + (if length ids > 1
                          then (real (length ids) - 1) * baseVerticalSpacing else 0)"
  let ?step = "\<lambda>f. (\<lambda>(childId, kidHeight) (currentY, st').
                          case initialLayout f nodes children childId ?nextX
                                 (currentY + kidHeight / 2) direction st' of
                            None \<Rightarrow> None
                          | Some (h, st'') \<Rightarrow>
                              Some (currentY + kidHeight + baseVerticalSpacing, st''))"
  from assms True obtain heights res where
    hs: "subtreeHeights fuel nodes children ids = Some heights"
    and fm: "foldM (?step fuel) (zip ids heights) (rootY - ?total heights / 2, st) = Some res"
    and r: "r = snd res"
    by (auto simp: layoutSide_def Let_def split: option.splits)
  have fm': "foldM (?step (Suc fuel)) (zip ids heights) (rootY - ?total heights / 2, st)
               = Some res"
    by (rule foldM_mono [OF fm])
       (auto split: option.splits dest!: initialLayout_Suc [of fuel]
             simp del: initialLayout.simps)
  note hs' = subtreeHeights_Suc [OF hs]
  show ?thesis
    unfolding layoutSide_def
    using True hs' fm' r
    apply (simp only: Let_def if_True option.case prod.case fst_conv snd_conv)
    apply (cases res)
    apply (simp only: prod.case snd_conv option.case)
    done
qed

lemma moveSubtreeHorizontally_Suc:
  "moveSubtreeHorizontally fuel children n d ps = Some r \<Longrightarrow>
   moveSubtreeHorizontally (Suc fuel) children n d ps = Some r"
proof (induction fuel arbitrary: n ps r)
  case 0
  then show ?case by simp
next
  case (Suc fuel)
  let ?ps1 = "case map_of ps n of
                Some pos \<Rightarrow> AList.update n (fst pos + d, snd pos) ps
              | None \<Rightarrow> ps"
  from Suc.prems have fm:
    "foldM (\<lambda>kidId ps. moveSubtreeHorizontally fuel children kidId d ps)
       (kidsOf children n) ?ps1 = Some r"
    by simp
  have "foldM (\<lambda>kidId ps. moveSubtreeHorizontally (Suc fuel) children kidId d ps)
       (kidsOf children n) ?ps1 = Some r"
    by (rule foldM_mono [OF fm]) (rule Suc.IH)
  then show ?case
    by (subst moveSubtreeHorizontally.simps(2))
qed

lemma pushChildAway_Suc:
  "pushChildAway fuel nodes children p c iter ps = Some r \<Longrightarrow>
   pushChildAway (Suc fuel) nodes children p c iter ps = Some r"
proof (induction k \<equiv> "maxParentChildIterations - iter" arbitrary: iter ps)
  case 0
  then have "\<not> iter < maxParentChildIterations" by simp
  with "0.prems" show ?case
    by (subst (asm) pushChildAway.simps, subst pushChildAway.simps) simp
next
  case (Suc k)
  then have lt: "iter < maxParentChildIterations"
    and k: "k = maxParentChildIterations - Suc iter" by simp_all
  from Suc.prems show ?case
    by (subst (asm) pushChildAway.simps, subst pushChildAway.simps)
       (auto simp: lt Let_def simp del: moveSubtreeHorizontally.simps
             split: option.splits prod.splits if_splits
             dest!: Suc.hyps(1) [OF k] moveSubtreeHorizontally_Suc [of fuel])
qed

lemma horizontalPlaced_Suc:
  assumes "horizontalPlaced fuel nodes edges = Some r"
  shows "horizontalPlaced (Suc fuel) nodes edges = Some r"
proof -
  let ?root = "rootOf nodes edges"
  let ?st0 = "([(node_id ?root, (rootX, rootY))], [node_id ?root \<mapsto> (Left, Right)])"
  let ?ch = "fst (buildTree nodes edges)"
  let ?ls = "sideChildren nodes edges ?root (kidsOf ?ch (node_id ?root)) SideLeft"
  let ?rs = "sideChildren nodes edges ?root (kidsOf ?ch (node_id ?root)) SideRight"
  from assms obtain st1 st2 ps3 ps4 where
    l: "layoutSide fuel nodes ?ch SideLeft ?ls ?st0 = Some st1" and
    r: "layoutSide fuel nodes ?ch SideRight ?rs st1 = Some st2" and
    c: "centerRoot nodes (node_id ?root) ?ls ?rs (fst st2) = Some ps3" and
    p: "foldM (\<lambda>edge ps. pushChildAway fuel nodes ?ch (source edge) (target edge) 0 ps)
          edges (resolveOverlaps nodes ?ch (snd (buildTree nodes edges)) ps3) = Some ps4" and
    pl: "r = (ps4, snd st2)"
    by (auto simp: horizontalPlaced_def Let_def split: option.splits)
  have p': "foldM (\<lambda>edge ps. pushChildAway (Suc fuel) nodes ?ch (source edge) (target edge) 0 ps)
          edges (resolveOverlaps nodes ?ch (snd (buildTree nodes edges)) ps3) = Some ps4"
    by (rule foldM_mono [OF p]) (rule pushChildAway_Suc)
  show ?thesis
    unfolding horizontalPlaced_def
    using layoutSide_Suc [OF l] layoutSide_Suc [OF r] c p' pl
    by (simp only: Let_def option.case)
qed

lemma horizontalLayout_Suc:
  assumes "horizontalLayout fuel nodes edges = Some r"
  shows "horizontalLayout (Suc fuel) nodes edges = Some r"
proof (cases "length nodes = 0")
  case True
  with assms show ?thesis by (simp add: horizontalLayout_def)
next
  case False
  with assms obtain placed where pl: "horizontalPlaced fuel nodes edges = Some placed"
    by (auto simp: horizontalLayout_def split: option.splits)
  have "horizontalLayout (Suc fuel) nodes edges = horizontalLayout fuel nodes edges"
    by (simp add: horizontalLayout_def pl horizontalPlaced_Suc [OF pl])
  with assms show ?thesis by simp
qed


lemma calculateLevels_Suc:
  "calculateLevels fuel children n lvl st = Some r \<Longrightarrow>
   calculateLevels (Suc fuel) children n lvl st = Some r"
proof (induction fuel arbitrary: n lvl st r)
  case 0
  then show ?case by simp
next
  case (Suc fuel)
  show ?case
  proof (cases "n \<in> fst st")
    case True
    with Suc.prems show ?thesis by simp
  next
    case False
    with Suc.prems have fm:
      "foldM (\<lambda>child st'. calculateLevels fuel children child (lvl + 1) st')
         (kidsOf children n) (insert n (fst st), (snd st)(n \<mapsto> lvl)) = Some r"
      by simp
    have "foldM (\<lambda>child st'. calculateLevels (Suc fuel) children child (lvl + 1) st')
         (kidsOf children n) (insert n (fst st), (snd st)(n \<mapsto> lvl)) = Some r"
      by (rule foldM_mono [OF fm]) (rule Suc.IH)
    with False show ?thesis
      by (subst calculateLevels.simps(2)) (simp only: if_False)
  qed
qed

lemma positionChildren_Suc:
  "positionChildren fuel nodes children levels parentId startAngle endAngle st = Some r \<Longrightarrow>
   positionChildren (Suc fuel) nodes children levels parentId startAngle endAngle st = Some r"
proof (induction fuel arbitrary: parentId startAngle endAngle st r)
  case 0
  then show ?case by simp
next
  case (Suc fuel)
  let ?kids = "kidsOf children parentId"
  let ?radius = "ringRadius nodes levels parentId ?kids"
  let ?availableAngle = "endAngle - startAngle"
  let ?angleStep = "max (?availableAngle / real (length ?kids)) minAngleSpacing"
  let ?step = "\<lambda>f parentPos. (\<lambda>(childId, index) (childAngles, st').
                 (let angle = startAngle + ?angleStep * (real index + 1 / 2);
                      x = fst parentPos + cos angle * ?radius;
                      y = snd parentPos + sin angle * ?radius;
                      angleToParent = atan2 (snd parentPos - y) (fst parentPos - x);
                      handles = getHandlePositionFromAngle angleToParent;
                      childAngleSpan =
                        min (?angleStep * (9 / 10)) (?availableAngle / real (length ?kids))
                  in case positionChildren f nodes children levels childId
                            (angle - childAngleSpan / 2) (angle + childAngleSpan / 2)
                            (AList.update childId (x, y) (fst st'),
                             (snd st')(childId \<mapsto> handles)) of
                       None \<Rightarrow> None
                     | Some (angles, st'') \<Rightarrow> Some (childAngles @ [angle], st'')))"
  show ?case
  proof (cases "length ?kids = 0")
    case True
    with Suc.prems show ?thesis by (simp add: Let_def)
  next
    case False
    with Suc.prems obtain parentPos where
      pp: "map_of (fst st) parentId = Some parentPos"
      and fm: "foldM (?step fuel parentPos) (zip ?kids [0 ..< length ?kids]) ([], st) = Some r"
      by (auto simp: Let_def split: option.splits)
    have fm': "foldM (?step (Suc fuel) parentPos) (zip ?kids [0 ..< length ?kids]) ([], st)
                 = Some r"
      by (rule foldM_mono [OF fm])
         (auto simp: Let_def split: option.splits dest!: Suc.IH
               simp del: positionChildren.simps)
    show ?thesis
      apply (subst positionChildren.simps(2))
      using False pp fm'
      apply (simp only: Let_def if_False option.case)
      done
  qed
qed

lemma layoutTree_Suc:
  assumes "layoutTree fuel nodes children rootId ox oy st = Some r"
  shows "layoutTree (Suc fuel) nodes children rootId ox oy st = Some r"
proof -
  from assms obtain lv pc where
    lv: "calculateLevels fuel children rootId 0 (fst st, Map.empty) = Some lv"
    and pc: "positionChildren fuel nodes children (snd lv) rootId 0 (2 * pi)
               (AList.update rootId (ox, oy) (fst (snd st)), snd (snd st)) = Some pc"
    by (auto simp: layoutTree_def split: option.splits)
  have "layoutTree (Suc fuel) nodes children rootId ox oy st
          = layoutTree fuel nodes children rootId ox oy st"
    unfolding layoutTree_def
    by (simp only: lv calculateLevels_Suc [OF lv] option.case prod.case
                   pc positionChildren_Suc [OF pc] split_beta)
  with assms show ?thesis by simp
qed

lemma radialPlaced_Suc:
  assumes "radialPlaced fuel nodes edges = Some r"
  shows "radialPlaced (Suc fuel) nodes edges = Some r"
proof -
  let ?step = "\<lambda>f. (\<lambda>rt (currentOffset, st).
                       case layoutTree f nodes (fst (buildTree nodes edges)) (node_id rt)
                              (currentOffset + 600) 600 st of
                         None \<Rightarrow> None
                       | Some st' \<Rightarrow> Some (currentOffset + 1200, st'))"
  from assms obtain res where
    fm: "foldM (?step fuel) (findRootNodes nodes edges) (0, {}, [], Map.empty) = Some res"
    by (auto simp: radialPlaced_def Let_def split: option.splits)
  have fm': "foldM (?step (Suc fuel)) (findRootNodes nodes edges) (0, {}, [], Map.empty)
               = Some res"
    by (rule foldM_mono [OF fm])
       (auto split: option.splits dest!: layoutTree_Suc [of fuel])
  have "radialPlaced (Suc fuel) nodes edges = radialPlaced fuel nodes edges"
    unfolding radialPlaced_def by (simp only: Let_def fm fm')
  with assms show ?thesis by simp
qed

lemma radialLayout_Suc:
  assumes "radialLayout fuel nodes edges = Some r"
  shows "radialLayout (Suc fuel) nodes edges = Some r"
proof (cases "length nodes = 0")
  case True
  with assms show ?thesis by (simp add: radialLayout_def)
next
  case False
  with assms obtain placed where pl: "radialPlaced fuel nodes edges = Some placed"
    by (auto simp: radialLayout_def split: option.splits)
  have "radialLayout (Suc fuel) nodes edges = radialLayout fuel nodes edges"
    by (simp add: radialLayout_def pl radialPlaced_Suc [OF pl])
  with assms show ?thesis by simp
qed

lemma getLayoutedElements_Suc:
  assumes "getLayoutedElements fuel dagre nodes edges direction = Some r"
  shows "getLayoutedElements (Suc fuel) dagre nodes edges direction = Some r"
  using assms
  by (auto simp: getLayoutedElements_def split: if_splits option.splits
           dest!: radialLayout_Suc [of fuel] horizontalLayout_Suc [of fuel])

lemma getLayoutedElements_mono:
  assumes "fuel \<le> fuel'" and "getLayoutedElements fuel dagre nodes edges direction = Some r"
  shows "getLayoutedElements fuel' dagre nodes edges direction = Some r"
  using assms by (induction rule: dec_induct) (auto dest: getLayoutedElements_Suc)

section \<open>A radial layout in which a nudged node comes near its child\<close>

lemma rad_kids:
  "kidsOf (fst (buildTree rad_nodes rad_edges)) ''p'' = [''c'', ''d'', ''e'']"
  "kidsOf (fst (buildTree rad_nodes rad_edges)) ''c'' = [''g'']"
  "kidsOf (fst (buildTree rad_nodes rad_edges)) ''d'' = []"
  "kidsOf (fst (buildTree rad_nodes rad_edges)) ''e'' = []"
  "kidsOf (fst (buildTree rad_nodes rad_edges)) ''g'' = []"
  by (simp_all add: rad_nodes_def rad_edges_def buildTree_def buildTree_edge_def kidsOf_def
        mkNode_def bigNode_def mkEdge_def)

lemma rad_roots: "findRootNodes rad_nodes rad_edges = [bigNode ''p'']"
  by (simp add: findRootNodes_def rad_nodes_def rad_edges_def mkNode_def bigNode_def mkEdge_def)

lemma rad_half:
  "halfDiagonal rad_nodes ''p'' = 500" "halfDiagonal rad_nodes ''c'' = 500"
  "halfDiagonal rad_nodes ''d'' = 125" "halfDiagonal rad_nodes ''e'' = 125"
  "halfDiagonal rad_nodes ''g'' = 125"
  by (simp_all add: halfDiagonal_def getNodeSize_radial_def rad_nodes_def mkNode_def bigNode_def
        measured_width_def measured_height_def nodeWidth_def nodeHeight_def)

lemma rad_sizes:
  "getNodeSize_radial rad_nodes ''p'' = (1000, 1000)"
  "getNodeSize_radial rad_nodes ''c'' = (1000, 1000)"
  "getNodeSize_radial rad_nodes ''d'' = (250, 80)"
  "getNodeSize_radial rad_nodes ''e'' = (250, 80)"
  "getNodeSize_radial rad_nodes ''g'' = (250, 80)"
  by (simp_all add: getNodeSize_radial_def rad_nodes_def mkNode_def bigNode_def
        measured_width_def measured_height_def nodeWidth_def nodeHeight_def)

lemma rad_levels:
  "calculateLevels (Suc (Suc (Suc 0))) (fst (buildTree rad_nodes rad_edges)) ''p'' 0
     ({}, Map.empty)
   = Some ({''p'', ''c'', ''g'', ''d'', ''e''},
           [''p'' \<mapsto> 0, ''c'' \<mapsto> 1, ''g'' \<mapsto> 2, ''d'' \<mapsto> 1, ''e'' \<mapsto> 1])"
  by (simp add: rad_kids) (auto simp: fun_eq_iff)


lemma rad_ring:
  "levels ''p'' = Some 0 \<Longrightarrow> ringRadius rad_nodes levels ''p'' [''c'', ''d'', ''e''] = 1080"
  "levels ''c'' = Some (Suc 0) \<Longrightarrow> ringRadius rad_nodes levels ''c'' [''g''] = 705"
  by (simp_all add: ringRadius_def rad_half baseRadius_def radiusIncrement_def)

lemma trig_5pi3: "cos (5 * pi / 3) = 1 / 2" "sin (5 * pi / 3) = - (sqrt 3 / 2)"
proof -
  have e: "5 * pi / 3 = 2 * pi - pi / 3" by simp
  show "cos (5 * pi / 3) = 1 / 2" unfolding e by (simp only: cos_2pi_minus cos_60)
  show "sin (5 * pi / 3) = - (sqrt 3 / 2)" unfolding e by (simp only: sin_2pi_minus sin_60)
qed

lemma rad_positions:
  assumes "levels ''p'' = Some 0" and "levels ''c'' = Some (Suc 0)"
  shows "map_option (\<lambda>r. fst (snd r))
           (positionChildren (Suc (Suc (Suc 0))) rad_nodes (fst (buildTree rad_nodes rad_edges))
              levels ''p'' 0 (2 * pi) ([(''p'', (600, 600))], hp))
         = Some [(''p'', (600, 600)), (''c'', (1140, 600 + 540 * sqrt 3)),
                 (''g'', (2985 / 2, 600 + (1785 / 2) * sqrt 3)),
                 (''d'', (- 480, 600)), (''e'', (1140, 600 - 540 * sqrt 3))]"
  using pi_ge_two assms
  by (simp add: rad_kids rad_ring Let_def minAngleSpacing_def cos_60 sin_60 trig_5pi3
        upt_rec [of 0] upt_rec [of "Suc 0"] upt_rec [of "Suc (Suc 0)"])


lemma sqrt3_bounds: "17 / 10 < sqrt 3" "sqrt 3 < 18 / 10"
  by (rule real_less_rsqrt, simp add: power2_eq_square)
     (rule real_less_lsqrt, simp_all add: power2_eq_square)

lemma rad_nudged:
  "fold (nudgeEdge rad_nodes) rad_edges
     [(''p'', (600, 600)), (''c'', (1140, 600 + 540 * sqrt 3)),
      (''g'', (2985 / 2, 600 + (1785 / 2) * sqrt 3)),
      (''d'', (- 480, 600)), (''e'', (1140, 600 - 540 * sqrt 3))]
   = [(''p'', (600, 600)), (''c'', (1660, 600 + 540 * sqrt 3)),
      (''g'', (2985 / 2, 600 + (1785 / 2) * sqrt 3)),
      (''d'', (- 480, 600)), (''e'', (1140, 600 - 540 * sqrt 3))]"
  using sqrt3_bounds
  by (simp add: rad_edges_def nudgeEdge_def rad_sizes Let_def nudgeChild.simps mkEdge_def
        parentChildPadding_def parentChildStep_def maxParentChildIterations_def)

lemma rad_distance:
  "centreDistance (1660, 600 + 540 * sqrt 3) (2985 / 2, 600 + (1785 / 2) * sqrt 3) < 705"
proof -
  have "(1660 - 2985 / 2)\<^sup>2 + (600 + 540 * sqrt 3 - (600 + (1785 / 2) * sqrt 3))\<^sup>2
          = (335 / 2)\<^sup>2 + ((705 / 2) * sqrt 3)\<^sup>2"
    by (simp add: power2_eq_square algebra_simps)
  also have "\<dots> = 400825"
    by (simp add: power_mult_distrib power2_eq_square)
  finally have "centreDistance (1660, 600 + 540 * sqrt 3) (2985 / 2, 600 + (1785 / 2) * sqrt 3)
                  = sqrt 400825"
    by (simp add: centreDistance_def)
  moreover have "sqrt 400825 < 705"
    by (rule real_less_lsqrt) (simp_all add: power2_eq_square)
  ultimately show ?thesis by simp
qed

lemma bigNode_id: "node_id (bigNode i) = i"
  by (simp add: bigNode_def mkNode_def)

lemma rad_placed:
  "\<exists>co hp. radialPlaced (Suc (Suc (Suc 0))) rad_nodes rad_edges
     = Some (co, {''p'', ''c'', ''g'', ''d'', ''e''},
           [(''p'', (600, 600)), (''c'', (1660, 600 + 540 * sqrt 3)),
            (''g'', (2985 / 2, 600 + (1785 / 2) * sqrt 3)),
            (''d'', (- 480, 600)), (''e'', (1140, 600 - 540 * sqrt 3))], hp)"
proof -
  let ?levels = "[''p'' \<mapsto> 0, ''c'' \<mapsto> Suc 0, ''g'' \<mapsto> 2, ''d'' \<mapsto> Suc 0, ''e'' \<mapsto> Suc 0]"
  have lv: "?levels ''p'' = Some 0" "?levels ''c'' = Some (Suc 0)" by simp_all
  from rad_positions [OF lv, of Map.empty] obtain r where
    r: "positionChildren (Suc (Suc (Suc 0))) rad_nodes (fst (buildTree rad_nodes rad_edges))
          ?levels ''p'' 0 (2 * pi) ([(''p'', (600, 600))], Map.empty) = Some r"
    and ps: "fst (snd r) = [(''p'', (600, 600)), (''c'', (1140, 600 + 540 * sqrt 3)),
                 (''g'', (2985 / 2, 600 + (1785 / 2) * sqrt 3)),
                 (''d'', (- 480, 600)), (''e'', (1140, 600 - 540 * sqrt 3))]"
    by (auto simp only: map_option_eq_Some)
  obtain as ps' hp' where rr: "r = (as, ps', hp')" by (cases r)
  have lt: "layoutTree (Suc (Suc (Suc 0))) rad_nodes (fst (buildTree rad_nodes rad_edges)) ''p''
              600 600 ({}, [], Map.empty)
            = Some ({''p'', ''c'', ''g'', ''d'', ''e''}, ps',
                 hp'(''p'' \<mapsto>
                       (if length as > 0
                        then (let sumX = fold (\<lambda>angle s. s + cos angle) as 0;
                                  sumY = fold (\<lambda>angle s. s + sin angle) as 0
                              in getHandlePositionFromAngle (atan2 sumY sumX))
                        else (Left, Right))))"
    unfolding layoutTree_def
    using rad_levels r rr by (simp del: calculateLevels.simps positionChildren.simps)
  show ?thesis
    unfolding radialPlaced_def
    using lt ps rr rad_nudged
    by (simp add: Let_def rad_roots bigNode_id del: calculateLevels.simps positionChildren.simps)
qed

text \<open>
  In the tree with the root \<open>p\<close>, its children \<open>c\<close>, \<open>d\<close>, \<open>e\<close> and the child \<open>g\<close> of
  \<open>c\<close>, with the edges of the root first in the list of edges, every node is placed by
  the traversal of the root. The pass after the placement shifts \<open>c\<close> by 520 to the right,
  away from \<open>p\<close>, and leaves \<open>g\<close> where it was placed around the old position of \<open>c\<close>:
  the centres of \<open>c\<close> and \<open>g\<close> end at a distance of about 633, less than
  \<open>500 + 125 + 80 = 705\<close>.
\<close>

lemma radial_distance_roots_first:
  "\<exists>co visited positions hp pc pg.
     radialPlaced (Suc (Suc (Suc 0))) rad_nodes rad_edges = Some (co, visited, positions, hp)
     \<and> mkEdge ''c'' ''g'' \<in> set rad_edges \<and> ''c'' \<in> visited \<and> ''g'' \<in> visited
     \<and> map_of positions ''c'' = Some pc \<and> map_of positions ''g'' = Some pg
     \<and> centreDistance pc pg
         < halfDiagonal rad_nodes ''c'' + halfDiagonal rad_nodes ''g'' + 80"
proof -
  define visited :: "string set" where "visited = {''p'', ''c'', ''g'', ''d'', ''e''}"
  define positions :: posmap where
    "positions = [(''p'', (600, 600)), (''c'', (1660, 600 + 540 * sqrt 3)),
            (''g'', (2985 / 2, 600 + (1785 / 2) * sqrt 3)),
            (''d'', (- 480, 600 :: real)), (''e'', (1140, 600 - 540 * sqrt 3))]"
  note v = visited_def and ps = positions_def
  from rad_placed obtain co hp where
    pl: "radialPlaced (Suc (Suc (Suc 0))) rad_nodes rad_edges
           = Some (co, visited, positions, hp)"
    unfolding v ps by blast
  have "radialPlaced (Suc (Suc (Suc 0))) rad_nodes rad_edges = Some (co, visited, positions, hp)
     \<and> mkEdge ''c'' ''g'' \<in> set rad_edges \<and> ''c'' \<in> visited \<and> ''g'' \<in> visited
     \<and> map_of positions ''c'' = Some (1660, 600 + 540 * sqrt 3)
     \<and> map_of positions ''g'' = Some (2985 / 2, 600 + (1785 / 2) * sqrt 3)
     \<and> centreDistance (1660, 600 + 540 * sqrt 3) (2985 / 2, 600 + (1785 / 2) * sqrt 3)
         < halfDiagonal rad_nodes ''c'' + halfDiagonal rad_nodes ''g'' + 80"
    using pl rad_distance by (simp add: v ps rad_half rad_edges_def)
  then show ?thesis by blast
qed


section \<open>A radial layout in which a nudged node ends on its child\<close>

lemma ovl_kids:
  "kidsOf (fst (buildTree ovl_nodes ovl_edges)) ''p'' = [''c'', ''d'', ''e'']"
  "kidsOf (fst (buildTree ovl_nodes ovl_edges)) ''c'' = [''g'']"
  "kidsOf (fst (buildTree ovl_nodes ovl_edges)) ''d'' = []"
  "kidsOf (fst (buildTree ovl_nodes ovl_edges)) ''e'' = []"
  "kidsOf (fst (buildTree ovl_nodes ovl_edges)) ''g'' = []"
  by (simp_all add: ovl_nodes_def ovl_edges_def buildTree_def buildTree_edge_def kidsOf_def
        mkNode_def bigNode_def squareNode_def mkEdge_def)

lemma ovl_roots: "findRootNodes ovl_nodes ovl_edges = [bigNode ''p'']"
  by (simp add: findRootNodes_def ovl_nodes_def ovl_edges_def mkNode_def bigNode_def
        squareNode_def mkEdge_def)

lemma ovl_half:
  "halfDiagonal ovl_nodes ''p'' = 500" "halfDiagonal ovl_nodes ''c'' = 500"
  "halfDiagonal ovl_nodes ''d'' = 125" "halfDiagonal ovl_nodes ''e'' = 125"
  "halfDiagonal ovl_nodes ''g'' = 125"
  by (simp_all add: halfDiagonal_def getNodeSize_radial_def ovl_nodes_def mkNode_def bigNode_def
        squareNode_def measured_width_def measured_height_def nodeWidth_def nodeHeight_def)

lemma ovl_sizes:
  "getNodeSize_radial ovl_nodes ''p'' = (1000, 1000)"
  "getNodeSize_radial ovl_nodes ''c'' = (1000, 1000)"
  "getNodeSize_radial ovl_nodes ''d'' = (250, 80)"
  "getNodeSize_radial ovl_nodes ''e'' = (250, 80)"
  "getNodeSize_radial ovl_nodes ''g'' = (250, 250)"
  by (simp_all add: getNodeSize_radial_def ovl_nodes_def mkNode_def bigNode_def squareNode_def
        measured_width_def measured_height_def nodeWidth_def nodeHeight_def)

lemma ovl_levels:
  "calculateLevels (Suc (Suc (Suc 0))) (fst (buildTree ovl_nodes ovl_edges)) ''p'' 0
     ({}, Map.empty)
   = Some ({''p'', ''c'', ''g'', ''d'', ''e''},
           [''p'' \<mapsto> 0, ''c'' \<mapsto> 1, ''g'' \<mapsto> 2, ''d'' \<mapsto> 1, ''e'' \<mapsto> 1])"
  by (simp add: ovl_kids) (auto simp: fun_eq_iff)

lemma ovl_ring:
  "levels ''p'' = Some 0 \<Longrightarrow> ringRadius ovl_nodes levels ''p'' [''c'', ''d'', ''e''] = 1080"
  "levels ''c'' = Some (Suc 0) \<Longrightarrow> ringRadius ovl_nodes levels ''c'' [''g''] = 705"
  by (simp_all add: ringRadius_def ovl_half baseRadius_def radiusIncrement_def)

lemma ovl_positions:
  assumes "levels ''p'' = Some 0" and "levels ''c'' = Some (Suc 0)"
  shows "map_option (\<lambda>r. fst (snd r))
           (positionChildren (Suc (Suc (Suc 0))) ovl_nodes (fst (buildTree ovl_nodes ovl_edges))
              levels ''p'' 0 (2 * pi) ([(''p'', (600, 600))], hp))
         = Some [(''p'', (600, 600)), (''c'', (1140, 600 + 540 * sqrt 3)),
                 (''g'', (2985 / 2, 600 + (1785 / 2) * sqrt 3)),
                 (''d'', (- 480, 600)), (''e'', (1140, 600 - 540 * sqrt 3))]"
  using pi_ge_two assms
  by (simp add: ovl_kids ovl_ring Let_def minAngleSpacing_def cos_60 sin_60 trig_5pi3
        upt_rec [of 0] upt_rec [of "Suc 0"] upt_rec [of "Suc (Suc 0)"])

lemma sqrt3_below: "sqrt 3 < 174 / 100"
  by (rule real_less_lsqrt) (simp_all add: power2_eq_square)

lemma ovl_nudged:
  "fold (nudgeEdge ovl_nodes) ovl_edges
     [(''p'', (600, 600)), (''c'', (1140, 600 + 540 * sqrt 3)),
      (''g'', (2985 / 2, 600 + (1785 / 2) * sqrt 3)),
      (''d'', (- 480, 600)), (''e'', (1140, 600 - 540 * sqrt 3))]
   = [(''p'', (600, 600)), (''c'', (1660, 600 + 540 * sqrt 3)),
      (''g'', (3625 / 2, 600 + (1785 / 2) * sqrt 3)),
      (''d'', (- 480, 600)), (''e'', (1140, 600 - 540 * sqrt 3))]"
  using sqrt3_bounds
  by (simp add: ovl_edges_def nudgeEdge_def ovl_sizes Let_def nudgeChild.simps mkEdge_def
        parentChildPadding_def parentChildStep_def maxParentChildIterations_def)

lemma ovl_distance:
  "centreDistance (1660, 600 + 540 * sqrt 3) (3625 / 2, 600 + (1785 / 2) * sqrt 3) < 705"
proof -
  have "(1660 - 3625 / 2)\<^sup>2 + (600 + 540 * sqrt 3 - (600 + (1785 / 2) * sqrt 3))\<^sup>2
          = (305 / 2)\<^sup>2 + ((705 / 2) * sqrt 3)\<^sup>2"
    by (simp add: power2_eq_square algebra_simps)
  also have "\<dots> = 396025"
    by (simp add: power_mult_distrib power2_eq_square)
  finally have "centreDistance (1660, 600 + 540 * sqrt 3) (3625 / 2, 600 + (1785 / 2) * sqrt 3)
                  = sqrt 396025"
    by (simp add: centreDistance_def)
  moreover have "sqrt 396025 < 705"
    by (rule real_less_lsqrt) (simp_all add: power2_eq_square)
  ultimately show ?thesis by simp
qed

lemma ovl_boxes:
  "boxesOverlap (centredBox (1660, 600 + 540 * sqrt 3) (1000, 1000))
     (centredBox (3625 / 2, 600 + (1785 / 2) * sqrt 3) (250, 250))"
  using sqrt3_below sqrt3_bounds by (simp add: boxesOverlap_def centredBox_def)

lemma ovl_placed:
  "\<exists>co hp. radialPlaced (Suc (Suc (Suc 0))) ovl_nodes ovl_edges
     = Some (co, {''p'', ''c'', ''g'', ''d'', ''e''},
           [(''p'', (600, 600)), (''c'', (1660, 600 + 540 * sqrt 3)),
            (''g'', (3625 / 2, 600 + (1785 / 2) * sqrt 3)),
            (''d'', (- 480, 600)), (''e'', (1140, 600 - 540 * sqrt 3))], hp)"
proof -
  let ?levels = "[''p'' \<mapsto> 0, ''c'' \<mapsto> Suc 0, ''g'' \<mapsto> 2, ''d'' \<mapsto> Suc 0, ''e'' \<mapsto> Suc 0]"
  have lv: "?levels ''p'' = Some 0" "?levels ''c'' = Some (Suc 0)" by simp_all
  from ovl_positions [OF lv, of Map.empty] obtain r where
    r: "positionChildren (Suc (Suc (Suc 0))) ovl_nodes (fst (buildTree ovl_nodes ovl_edges))
          ?levels ''p'' 0 (2 * pi) ([(''p'', (600, 600))], Map.empty) = Some r"
    and ps: "fst (snd r) = [(''p'', (600, 600)), (''c'', (1140, 600 + 540 * sqrt 3)),
                 (''g'', (2985 / 2, 600 + (1785 / 2) * sqrt 3)),
                 (''d'', (- 480, 600)), (''e'', (1140, 600 - 540 * sqrt 3))]"
    by (auto simp only: map_option_eq_Some)
  obtain as ps' hp' where rr: "r = (as, ps', hp')" by (cases r)
  have lt: "layoutTree (Suc (Suc (Suc 0))) ovl_nodes (fst (buildTree ovl_nodes ovl_edges)) ''p''
              600 600 ({}, [], Map.empty)
            = Some ({''p'', ''c'', ''g'', ''d'', ''e''}, ps',
                 hp'(''p'' \<mapsto>
                       (if length as > 0
                        then (let sumX = fold (\<lambda>angle s. s + cos angle) as 0;
                                  sumY = fold (\<lambda>angle s. s + sin angle) as 0
                              in getHandlePositionFromAngle (atan2 sumY sumX))
                        else (Left, Right))))"
    unfolding layoutTree_def
    using ovl_levels r rr by (simp del: calculateLevels.simps positionChildren.simps)
  show ?thesis
    unfolding radialPlaced_def
    using lt ps rr ovl_nudged
    by (simp add: Let_def ovl_roots bigNode_id del: calculateLevels.simps positionChildren.simps)
qed

text \<open>
  Claim C5 fails on the code. In the tree with the root \<open>p\<close>, its children \<open>c\<close>, \<open>d\<close>,
  \<open>e\<close> and the child \<open>g\<close> of \<open>c\<close>, with the edge from \<open>c\<close> to \<open>g\<close> first in the list
  of edges, every node is placed by the traversal of the root. The pass after the placement
  first shifts \<open>g\<close> by 320 to the right, away from \<open>c\<close>, and then shifts \<open>c\<close> by 520 to
  the right, away from \<open>p\<close>, without its child \<open>g\<close>. The centres of \<open>c\<close> and \<open>g\<close> end
  at a distance of about 629, less than \<open>500 + 125 + 80 = 705\<close>, and the box of \<open>g\<close>
  overlaps the box of its parent \<open>c\<close>.
\<close>

theorem radial_nudge_breaks_separation:
  "\<exists>co visited positions hp pc pg.
     radialPlaced (Suc (Suc (Suc 0))) ovl_nodes ovl_edges = Some (co, visited, positions, hp)
     \<and> mkEdge ''c'' ''g'' \<in> set ovl_edges \<and> ''c'' \<in> visited \<and> ''g'' \<in> visited
     \<and> map_of positions ''c'' = Some pc \<and> map_of positions ''g'' = Some pg
     \<and> centreDistance pc pg
         < halfDiagonal ovl_nodes ''c'' + halfDiagonal ovl_nodes ''g'' + 80
     \<and> boxesOverlap (centredBox pc (getNodeSize_radial ovl_nodes ''c''))
          (centredBox pg (getNodeSize_radial ovl_nodes ''g''))"
proof -
  define visited :: "string set" where "visited = {''p'', ''c'', ''g'', ''d'', ''e''}"
  define positions :: posmap where
    "positions = [(''p'', (600, 600)), (''c'', (1660, 600 + 540 * sqrt 3)),
            (''g'', (3625 / 2, 600 + (1785 / 2) * sqrt 3)),
            (''d'', (- 480, 600 :: real)), (''e'', (1140, 600 - 540 * sqrt 3))]"
  note v = visited_def and ps = positions_def
  from ovl_placed obtain co hp where
    pl: "radialPlaced (Suc (Suc (Suc 0))) ovl_nodes ovl_edges
           = Some (co, visited, positions, hp)"
    unfolding v ps by blast
  have "radialPlaced (Suc (Suc (Suc 0))) ovl_nodes ovl_edges = Some (co, visited, positions, hp)
     \<and> mkEdge ''c'' ''g'' \<in> set ovl_edges \<and> ''c'' \<in> visited \<and> ''g'' \<in> visited
     \<and> map_of positions ''c'' = Some (1660, 600 + 540 * sqrt 3)
     \<and> map_of positions ''g'' = Some (3625 / 2, 600 + (1785 / 2) * sqrt 3)
     \<and> centreDistance (1660, 600 + 540 * sqrt 3) (3625 / 2, 600 + (1785 / 2) * sqrt 3)
         < halfDiagonal ovl_nodes ''c'' + halfDiagonal ovl_nodes ''g'' + 80
     \<and> boxesOverlap (centredBox (1660, 600 + 540 * sqrt 3) (getNodeSize_radial ovl_nodes ''c''))
          (centredBox (3625 / 2, 600 + (1785 / 2) * sqrt 3) (getNodeSize_radial ovl_nodes ''g''))"
    using pl ovl_distance ovl_boxes by (simp add: v ps ovl_half ovl_sizes ovl_edges_def)
  then show ?thesis by blast
qed
end
